theory Spec2Isabelle
  imports Complex_Main "HOL-Library.Sublist"
begin

section \<open>Text\<close>

text \<open>
  JavaScript strings are modelled as \<open>string\<close> (a list of bytes, the UTF-8 form of
  the text).  Every delimiter the program looks for (\<open>/\<close>, \<open>*\<close>, line feed,
  carriage return) is an ASCII character, and no byte of a multi-byte UTF-8 sequence is
  an ASCII byte, so scanning bytes finds the same delimiters as scanning UTF-16 code
  units does.
\<close>

abbreviation LF :: char where "LF \<equiv> CHR 0x0A"
abbreviation CR :: char where "CR \<equiv> CHR 0x0D"

subsection \<open>removeComments\<close>

text \<open>
  \<^verbatim>\<open>str.replace(/\/\*(?:(?!\*\/)[\s\S])*\*\//g, "")\<close>:
  a match starts at \<open>/*\<close>, its body takes characters as long as none of them starts
  \<open>*/\<close>, and it must end with \<open>*/\<close>; so it ends at the first \<open>*/\<close> after the
  opener, and there is no match at an opener that is never closed.
  \<open>block_close r\<close> is the text after the first \<open>*/\<close> of \<open>r\<close>.
\<close>

fun block_close :: "string \<Rightarrow> string option" where
  "block_close (a # b # r) =
     (if a = CHR ''*'' \<and> b = CHR ''/'' then Some r else block_close (b # r))"
| "block_close _ = None"

lemma block_close_length: "block_close r = Some r' \<Longrightarrow> length r' < length r"
  by (induction r rule: block_close.induct) (auto split: if_splits)

function replace_block :: "string \<Rightarrow> string" where
  "replace_block [] = []"
| "replace_block [c] = [c]"
| "replace_block (a # b # r) =
     (if a = CHR ''/'' \<and> b = CHR ''*'' then
        (case block_close r of
           Some r' \<Rightarrow> replace_block r'
         | None \<Rightarrow> a # replace_block (b # r))
      else a # replace_block (b # r))"
  by pat_completeness auto
termination
  by (relation "measure length") (auto dest: block_close_length)

text \<open>
  \<^verbatim>\<open>str.replace(/\/\/[^\n\r]*/g, "")\<close>: from \<open>//\<close> up to, and without, the next
  line feed or carriage return.
\<close>

function replace_line :: "string \<Rightarrow> string" where
  "replace_line [] = []"
| "replace_line [c] = [c]"
| "replace_line (a # b # r) =
     (if a = CHR ''/'' \<and> b = CHR ''/'' then
        replace_line (dropWhile (\<lambda>c. c \<noteq> LF \<and> c \<noteq> CR) r)
      else a # replace_line (b # r))"
  by pat_completeness auto
termination
  by (relation "measure length") (auto simp: le_imp_less_Suc length_dropWhile_le less_SucI)

text \<open>
  \<^verbatim>\<open>function removeComments(str) { str = str || ""; ... }\<close>.
  The argument is \<open>None\<close> for \<open>null\<close> and \<open>undefined\<close>.
\<close>

definition removeComments :: "string option \<Rightarrow> string" where
  "removeComments str =
     (let s = (case str of None \<Rightarrow> [] | Some t \<Rightarrow> t)
      in replace_line (replace_block s))"

text \<open>\<open>has_pair x y s\<close>: the two characters \<open>x y\<close> stand next to each other in \<open>s\<close>.\<close>

fun has_pair :: "char \<Rightarrow> char \<Rightarrow> string \<Rightarrow> bool" where
  "has_pair x y (a # b # r) = ((a = x \<and> b = y) \<or> has_pair x y (b # r))"
| "has_pair x y _ = False"

section \<open>Environment\<close>

text \<open>
  The program reads its surroundings through Node's \<open>process\<close> and \<open>path\<close>, through
  shelljs (\<open>test\<close>, \<open>ls\<close>, \<open>cat\<close>), minimatch, \<open>RegExp\<close> and
  \<open>JSON.parse\<close>.  None of them is code of this repository.  The file system, the
  glob matcher, the regular-expression engine and the JSON parser are fields of an
  environment record, so every theorem holds for each of them; the POSIX \<open>path\<close>
  functions are written out below, since termination of the upward search depends on
  what they compute.

  \<^item> \<open>cwd_parts\<close>: \<open>process.cwd()\<close> is an absolute path, held as its components.
  \<^item> \<open>env_HOME\<close>: \<open>process.env.HOME\<close>.
  \<^item> \<open>shjs_test_e\<close>, \<open>shjs_test_d\<close>: \<open>shjs.test("-e", p)\<close>, \<open>shjs.test("-d", p)\<close>.
  \<^item> \<open>shjs_ls\<close>: the names \<open>shjs.ls(p)\<close> lists.
  \<^item> \<open>shjs_cat\<close>: what \<open>shjs.cat(p)\<close> does.  It returns the content of the file
    (\<open>Content\<close>), or it returns \<open>null\<close> (\<open>NoContent\<close>: shelljs reports a missing
    file on its own and goes on), or it throws (\<open>CatThrows\<close>), or it ends the process
    itself (\<open>CatExits code\<close>).
  \<^item> \<open>minimatch f p\<close>: \<open>minimatch(f, p, { nocase: true })\<close>.
  \<^item> \<open>RegExp src\<close>: \<open>new RegExp(src)\<close>, as the predicate "the expression matches
    somewhere in the subject"; \<open>None\<close> when the constructor throws a SyntaxError.
  \<^item> \<open>JSON_parse\<close>: \<open>JSON.parse\<close>; \<open>None\<close> when it throws a SyntaxError.

  A JavaScript number is a finite value (held as the rational it denotes), the negative
  zero, an infinity (\<open>JSON.parse\<close> returns one for a numeral beyond the range, such
  as \<open>1e400\<close>) or \<open>NaN\<close>.
\<close>

datatype jnumber = Finite rat | MinusZero | PlusInfinity | MinusInfinity | NaN

datatype json =
    JNull
  | JBool bool
  | JNum jnumber
  | JStr string
  | JArr "json list"
  | JObj "(string \<times> json) list"

datatype cat_result = Content string | NoContent | CatThrows | CatExits nat

record env =
  cwd_parts :: "string list"
  env_HOME :: string
  shjs_test_e :: "string \<Rightarrow> bool"
  shjs_test_d :: "string \<Rightarrow> bool"
  shjs_ls :: "string \<Rightarrow> string list"
  shjs_cat :: "string \<Rightarrow> cat_result"
  minimatch :: "string \<Rightarrow> string \<Rightarrow> bool"
  RegExp :: "string \<Rightarrow> (string \<Rightarrow> bool) option"
  JSON_parse :: "string \<Rightarrow> json option"

section \<open>Paths\<close>

text \<open>
  Node's POSIX \<open>path\<close> module: \<open>String.prototype.split\<close> and
  \<open>Array.prototype.join\<close>, \<open>normalizeArray\<close> (which scans the parts from the last
  to the first, counting the \<open>..\<close> still to be applied), \<open>path.normalize\<close>,
  \<open>path.join\<close> and \<open>path.resolve\<close> (which prepends its arguments from the last to
  the first until one is absolute, the working directory being the last resort).
\<close>

fun split_on :: "char \<Rightarrow> string \<Rightarrow> string list" where
  "split_on c [] = [[]]"
| "split_on c (x # xs) =
     (if x = c then [] # split_on c xs
      else (case split_on c xs of
              [] \<Rightarrow> [[x]]
            | w # ws \<Rightarrow> (x # w) # ws))"

fun js_join :: "string \<Rightarrow> string list \<Rightarrow> string" where
  "js_join sep [] = []"
| "js_join sep [x] = x"
| "js_join sep (x # y # zs) = x @ sep @ js_join sep (y # zs)"

definition path_parts :: "string \<Rightarrow> string list" where
  "path_parts p = filter (\<lambda>s. s \<noteq> []) (split_on CHR ''/'' p)"

fun na_step :: "string \<Rightarrow> string list \<times> nat \<Rightarrow> string list \<times> nat" where
  "na_step part (kept, up) =
     (if part = ''.'' then (kept, up)
      else if part = ''..'' then (kept, Suc up)
      else if up > 0 then (kept, up - 1)
      else (part # kept, up))"

definition normalizeArray :: "string list \<Rightarrow> bool \<Rightarrow> string list" where
  "normalizeArray parts allowAboveRoot =
     (case foldr na_step parts ([], 0) of
        (kept, up) \<Rightarrow> (if allowAboveRoot then replicate up ''..'' else []) @ kept)"

definition path_normalize :: "string \<Rightarrow> string" where
  "path_normalize p =
     (let isAbsolute = (p \<noteq> [] \<and> hd p = CHR ''/'');
          trailingSlash = (p \<noteq> [] \<and> last p = CHR ''/'');
          q = js_join ''/'' (normalizeArray (path_parts p) (\<not> isAbsolute));
          q1 = (if q = [] \<and> \<not> isAbsolute then ''.'' else q);
          q2 = (if q1 \<noteq> [] \<and> trailingSlash then q1 @ ''/'' else q1)
      in (if isAbsolute then ''/'' else []) @ q2)"

definition path_join :: "string list \<Rightarrow> string" where
  "path_join paths = path_normalize (js_join ''/'' (filter (\<lambda>p. p \<noteq> []) paths))"

definition process_cwd :: "env \<Rightarrow> string" where
  "process_cwd E = CHR ''/'' # js_join ''/'' (cwd_parts E)"

fun resolve_scan :: "string list \<Rightarrow> string \<Rightarrow> string \<times> bool" where
  "resolve_scan [] resolvedPath = (resolvedPath, False)"
| "resolve_scan (p # ps) resolvedPath =
     (if p = [] then resolve_scan ps resolvedPath
      else if hd p = CHR ''/'' then (p @ ''/'' @ resolvedPath, True)
      else resolve_scan ps (p @ ''/'' @ resolvedPath))"

definition path_resolve :: "env \<Rightarrow> string list \<Rightarrow> string" where
  "path_resolve E args =
     (case resolve_scan (rev args @ [process_cwd E]) [] of
        (resolvedPath, resolvedAbsolute) \<Rightarrow>
          (let r = (if resolvedAbsolute then ''/'' else []) @
                   js_join ''/'' (normalizeArray (path_parts resolvedPath) (\<not> resolvedAbsolute))
           in if r = [] then ''.'' else r))"


text \<open>
  Facts about the path functions, for the termination of the upward search: the
  components of an absolute path hold no separator and no \<open>.\<close> or \<open>..\<close>, an
  absolute path printed from such components reads back as the same components, and
  resolving \<open>../../\<close> against a directory drops its last two components.
\<close>

lemma split_on_nonempty: "split_on c s \<noteq> []"
  by (induction s) (auto split: list.splits)

lemma split_on_no_sep: "w \<in> set (split_on c s) \<Longrightarrow> c \<notin> set w"
proof (induction s arbitrary: w)
  case Nil
  then show ?case by simp
next
  case (Cons x xs)
  show ?case
  proof (cases "x = c")
    case True
    with Cons show ?thesis by auto
  next
    case False
    obtain h t where ht: "split_on c xs = h # t"
      using split_on_nonempty [of c xs] by (cases "split_on c xs") auto
    with Cons False show ?thesis by auto
  qed
qed

lemma split_on_append: "split_on c (a @ c # b) = split_on c a @ split_on c b"
proof (induction a)
  case Nil
  show ?case by simp
next
  case (Cons x a)
  obtain h t where ht: "split_on c a = h # t"
    using split_on_nonempty [of c a] by (cases "split_on c a") auto
  with Cons show ?case by simp
qed

lemma split_on_none: "c \<notin> set w \<Longrightarrow> split_on c w = [w]"
  by (induction w) auto

lemma path_parts_append: "path_parts (a @ CHR ''/'' # b) = path_parts a @ path_parts b"
  by (simp add: path_parts_def split_on_append)

definition clean :: "string list \<Rightarrow> bool" where
  "clean cs = (\<forall>w \<in> set cs. w \<noteq> [] \<and> CHR ''/'' \<notin> set w)"

lemma clean_path_parts: "clean (path_parts p)"
  by (auto simp: clean_def path_parts_def dest: split_on_no_sep)

lemma path_parts_js_join: "clean cs \<Longrightarrow> path_parts (js_join ''/'' cs) = cs"
proof (induction cs rule: induct_list012)
  case 1
  show ?case by (simp add: path_parts_def)
next
  case (2 x)
  then show ?case by (simp add: path_parts_def clean_def split_on_none)
next
  case (3 x y zs)
  then have "path_parts x = [x]" by (simp add: path_parts_def clean_def split_on_none)
  moreover have "path_parts (js_join ''/'' (y # zs)) = y # zs" using 3 by (simp add: clean_def)
  ultimately show ?case by (simp add: path_parts_append)
qed

lemma path_parts_abs: "clean cs \<Longrightarrow> path_parts (CHR ''/'' # js_join ''/'' cs) = cs"
proof -
  assume c: "clean cs"
  have "path_parts ([] @ CHR ''/'' # js_join ''/'' cs) = path_parts [] @ path_parts (js_join ''/'' cs)"
    by (rule path_parts_append)
  moreover have "path_parts [] = []" by (simp add: path_parts_def)
  ultimately show ?thesis using c by (simp add: path_parts_js_join)
qed


lemma na_fold_acc:
  "foldr na_step xs (acc, k) = (fst (foldr na_step xs ([], k)) @ acc, snd (foldr na_step xs ([], k)))"
proof (induction xs arbitrary: acc k rule: rev_induct)
  case Nil
  show ?case by simp
next
  case (snoc x xs)
  have a: "foldr na_step xs (x # acc, 0) = (fst (foldr na_step xs ([], 0)) @ x # acc, snd (foldr na_step xs ([], 0)))"
    by (rule snoc.IH)
  have b: "foldr na_step xs ([x], 0) = (fst (foldr na_step xs ([], 0)) @ [x], snd (foldr na_step xs ([], 0)))"
    by (rule snoc.IH)
  show ?case
    using snoc.IH [of acc k] snoc.IH [of acc "Suc k"] snoc.IH [of acc "k - 1"] a b
    by simp
qed

lemma na_fold_up:
  "fst (foldr na_step xs ([], k)) =
     take (length (fst (foldr na_step xs ([], 0))) - k) (fst (foldr na_step xs ([], 0)))"
proof (induction xs arbitrary: k rule: rev_induct)
  case Nil
  show ?case by simp
next
  case (snoc x xs)
  let ?K = "fst (foldr na_step xs ([], 0))"
  consider "x = ''.''" | "x = ''..''" | "x \<noteq> ''.''" "x \<noteq> ''..''" "k > 0" | "x \<noteq> ''.''" "x \<noteq> ''..''" "k = 0"
    by blast
  then show ?case
  proof cases
    case 1
    then show ?thesis using snoc.IH [of k] by simp
  next
    case 2
    have "fst (foldr na_step xs ([], Suc k)) = take (length ?K - Suc k) ?K" by (rule snoc.IH)
    moreover have "fst (foldr na_step xs ([], Suc 0)) = take (length ?K - Suc 0) ?K" by (rule snoc.IH)
    ultimately show ?thesis using 2 by (simp add: take_take min_def) 
  next
    case 3
    have "fst (foldr na_step xs ([], k - 1)) = take (length ?K - (k - 1)) ?K" by (rule snoc.IH)
    moreover have "foldr na_step xs ([x], 0) = (?K @ [x], snd (foldr na_step xs ([], 0)))"
      by (rule na_fold_acc)
    ultimately show ?thesis using 3 by (simp add: Suc_diff_le)
  next
    case 4
    then show ?thesis by simp
  qed
qed

definition dotfree :: "string list \<Rightarrow> bool" where
  "dotfree cs = (\<forall>w \<in> set cs. w \<noteq> ''.'' \<and> w \<noteq> ''..'')"

lemma na_fold_set:
  "w \<in> set (fst (foldr na_step xs ([], k))) \<Longrightarrow> w \<in> set xs \<and> w \<noteq> ''.'' \<and> w \<noteq> ''..''"
proof (induction xs arbitrary: k rule: rev_induct)
  case Nil
  then show ?case by simp
next
  case (snoc x xs)
  have b: "foldr na_step xs ([x], 0) = (fst (foldr na_step xs ([], 0)) @ [x], snd (foldr na_step xs ([], 0)))"
    by (rule na_fold_acc)
  show ?case
    using snoc.prems snoc.IH [of k] snoc.IH [of "Suc k"] snoc.IH [of "k - 1"] snoc.IH [of 0] b
    by (auto split: if_splits)
qed

lemma na_fold_dotfree: "dotfree cs \<Longrightarrow> foldr na_step cs ([], 0) = (cs, 0)"
proof (induction cs rule: rev_induct)
  case Nil
  show ?case by simp
next
  case (snoc x xs)
  then have "foldr na_step xs ([], 0) = (xs, 0)" by (simp add: dotfree_def)
  moreover have "foldr na_step xs ([x], 0) = (fst (foldr na_step xs ([], 0)) @ [x], snd (foldr na_step xs ([], 0)))"
    by (rule na_fold_acc)
  ultimately show ?case using snoc.prems by (simp add: dotfree_def)
qed


text \<open>
  \<open>dir_parts E dir\<close> are the components of the absolute form of \<open>dir\<close>, and
  \<open>abs_path cs\<close> prints components as an absolute path.
\<close>

definition dir_parts :: "env \<Rightarrow> string \<Rightarrow> string list" where
  "dir_parts E dir =
     normalizeArray
       (path_parts (if dir \<noteq> [] \<and> hd dir = CHR ''/'' then dir else process_cwd E @ ''/'' @ dir)) False"

definition abs_path :: "string list \<Rightarrow> string" where
  "abs_path cs = CHR ''/'' # js_join ''/'' cs"

lemma normalizeArray_fst: "normalizeArray ps False = fst (foldr na_step ps ([], 0))"
  by (simp add: normalizeArray_def split: prod.splits)

lemma normalizeArray_set:
  "w \<in> set (normalizeArray ps False) \<Longrightarrow> w \<in> set ps \<and> w \<noteq> ''.'' \<and> w \<noteq> ''..''"
  unfolding normalizeArray_fst by (rule na_fold_set)

lemma dir_parts_clean: "clean (dir_parts E dir)"
  unfolding clean_def dir_parts_def
  using clean_path_parts normalizeArray_set unfolding clean_def by blast

lemma dir_parts_dotfree: "dotfree (dir_parts E dir)"
  unfolding dotfree_def dir_parts_def using normalizeArray_set by blast

lemma dir_parts_abs_path:
  assumes "clean cs" "dotfree cs"
  shows "dir_parts E (abs_path cs) = cs"
proof -
  have "path_parts (abs_path cs) = cs"
    using assms(1) by (simp add: abs_path_def path_parts_abs)
  then show ?thesis
    using assms(2) by (simp add: dir_parts_def abs_path_def normalizeArray_fst na_fold_dotfree)
qed

lemma resolve_parent:
  assumes "dir \<noteq> []"
  shows "path_resolve E [dir, ''../../''] = abs_path (butlast (butlast (dir_parts E dir)))"
proof -
  let ?A = "if hd dir = CHR ''/'' then dir else process_cwd E @ ''/'' @ dir"
  have scan: "resolve_scan (rev [dir, ''../../''] @ [process_cwd E]) [] = (?A @ ''/'' @ ''../..//'', True)"
    using assms by (simp add: process_cwd_def)
  have "path_parts (?A @ ''/'' @ ''../..//'') = path_parts ?A @ path_parts ''../..//''"
    using path_parts_append [of ?A "''../..//''"] by simp
  also have "path_parts ''../..//'' = [''..'', ''..'']"
    by (simp add: path_parts_def)
  finally have parts: "path_parts (?A @ ''/'' @ ''../..//'') = path_parts ?A @ [''..'', ''..'']" .
  let ?K = "fst (foldr na_step (path_parts ?A) ([], 0))"
  have "normalizeArray (path_parts ?A @ [''..'', ''..'']) False = fst (foldr na_step (path_parts ?A) ([], 2))"
    by (simp add: normalizeArray_fst numeral_2_eq_2)
  also have "\<dots> = take (length ?K - 2) ?K" by (rule na_fold_up)
  also have "\<dots> = butlast (butlast ?K)" by (simp add: butlast_conv_take numeral_2_eq_2)
  finally have "normalizeArray (path_parts ?A @ [''..'', ''..'']) False = butlast (butlast (dir_parts E dir))"
    using assms by (simp add: dir_parts_def normalizeArray_fst)
  then have "normalizeArray (path_parts (?A @ ''/'' @ ''../..//'')) False = butlast (butlast (dir_parts E dir))"
    by (simp only: parts)
  moreover have "path_resolve E [dir, ''../../''] =
      CHR ''/'' # js_join ''/'' (normalizeArray (path_parts (?A @ ''/'' @ ''../..//'')) False)"
    unfolding path_resolve_def scan by (simp only: prod.case Let_def) simp
  ultimately show ?thesis
    by (simp only: abs_path_def)
qed

subsection \<open>findFile\<close>

text \<open>
  \<^verbatim>\<open>function findFile(name, dir)\<close>.  \<open>dir\<close> is \<open>None\<close> when the argument is
  left out; the result is \<open>None\<close> for \<open>null\<close>.
\<close>

function findFile :: "env \<Rightarrow> string \<Rightarrow> string option \<Rightarrow> string option" where
  "findFile E name dir =
     (let dir = (case dir of None \<Rightarrow> process_cwd E | Some d \<Rightarrow> if d = [] then process_cwd E else d);
          filename = path_normalize (path_join [dir, name]);
          parent = path_resolve E [dir, ''../../'']
      in if shjs_test_e E filename then Some filename
         else if dir = parent then None
         else findFile E name (Some parent))"
  by pat_completeness auto

text \<open>
  The search terminates: the parent has two components fewer than a directory with
  components, and the parent of a directory without components is the root \<open>/\<close>,
  which is its own parent.
\<close>

definition findFile_dir :: "env \<Rightarrow> string option \<Rightarrow> string" where
  "findFile_dir E dir = (case dir of None \<Rightarrow> process_cwd E | Some d \<Rightarrow> if d = [] then process_cwd E else d)"

definition findFile_measure :: "env \<times> string \<times> string option \<Rightarrow> nat" where
  "findFile_measure = (\<lambda>(E, name, dir).
     2 * length (dir_parts E (findFile_dir E dir)) +
     (if findFile_dir E dir = abs_path (dir_parts E (findFile_dir E dir)) then 0 else 1))"

lemma findFile_dir_nonempty: "findFile_dir E dir \<noteq> []"
  by (simp add: findFile_dir_def process_cwd_def split: option.splits)

lemma findFile_decreases:
  assumes "findFile_dir E dir \<noteq> path_resolve E [findFile_dir E dir, ''../../'']"
  shows "findFile_measure (E, name, Some (path_resolve E [findFile_dir E dir, ''../../''])) < findFile_measure (E, name, dir)"
proof -
  let ?d = "findFile_dir E dir"
  let ?cs = "butlast (butlast (dir_parts E ?d))"
  have p: "path_resolve E [?d, ''../../''] = abs_path ?cs"
    using findFile_dir_nonempty by (rule resolve_parent)
  have "clean ?cs" using dir_parts_clean [of E ?d] by (auto simp: clean_def dest: in_set_butlastD)
  moreover have "dotfree ?cs" using dir_parts_dotfree [of E ?d] by (auto simp: dotfree_def dest: in_set_butlastD)
  ultimately have rt: "dir_parts E (abs_path ?cs) = ?cs" by (rule dir_parts_abs_path)
  have ne: "abs_path ?cs \<noteq> []" by (simp add: abs_path_def)
  have m': "findFile_measure (E, name, Some (abs_path ?cs)) = 2 * length ?cs"
    using rt ne by (simp add: findFile_measure_def findFile_dir_def)
  show ?thesis
  proof (cases "dir_parts E ?d = []")
    case True
    with assms p have "?d \<noteq> abs_path (dir_parts E ?d)" by simp
    then show ?thesis unfolding p m' using True by (simp add: findFile_measure_def)
  next
    case False
    then have "length ?cs < length (dir_parts E ?d)" by simp
    then show ?thesis unfolding p m' by (simp add: findFile_measure_def)
  qed
qed

termination findFile
proof (relation "measure findFile_measure")
  show "wf (measure findFile_measure)" by simp
next
  fix E name dir x xa xb
  assume "x = (case dir of None \<Rightarrow> process_cwd E | Some d \<Rightarrow> if d = [] then process_cwd E else d)"
    and "xb = path_resolve E [x, ''../../'']" and "x \<noteq> xb"
  then show "((E, name, Some xb), E, name, dir) \<in> measure findFile_measure"
    using findFile_decreases [of E dir name] by (simp add: findFile_dir_def)
qed

declare findFile.simps [simp del]

subsection \<open>findConfig\<close>

text \<open>
  \<^verbatim>\<open>function findConfig()\<close>.  \<open>if (proj)\<close> holds for a non-empty string.
\<close>

definition findConfig :: "env \<Rightarrow> string option" where
  "findConfig E =
     (let name = ''.jshintrc'';
          proj = findFile E name None;
          home = path_normalize (path_join [env_HOME E, name])
      in if (case proj of None \<Rightarrow> False | Some p \<Rightarrow> p \<noteq> []) then proj
         else if shjs_test_e E home then Some home
         else None)"

section \<open>Outcomes\<close>

text \<open>
  A call that does not return: \<open>JSON.parse\<close> or \<open>new RegExp\<close> throws a
  \<open>SyntaxError\<close>, a method is called on \<open>null\<close> (\<open>TypeError\<close>), \<open>shjs.cat\<close>
  throws (\<open>ReadFailure\<close>), or the process is ended with a status (\<open>Exit code\<close>),
  by \<open>process.exit(code)\<close> or inside shelljs.  The only exception the program
  catches is the one of \<open>shjs.cat\<close> in lint.
\<close>

datatype failure = SyntaxError | TypeError | ReadFailure | Exit nat

subsection \<open>loadConfig\<close>

text \<open>
  \<^verbatim>\<open>if (fp && shjs.test("-e", fp)) return JSON.parse(removeComments(shjs.cat(fp)));
  return {};\<close>
  \<open>fp\<close> is \<open>None\<close> for \<open>null\<close>; the empty string is falsy as well.  When
  \<open>shjs.cat\<close> returns \<open>null\<close>, removeComments turns it into the empty string.
\<close>

definition loadConfig :: "env \<Rightarrow> string option \<Rightarrow> failure + json" where
  "loadConfig E fp =
     (case fp of
        None \<Rightarrow> Inr (JObj [])
      | Some p \<Rightarrow>
          if p \<noteq> [] \<and> shjs_test_e E p then
            (case shjs_cat E p of
               CatThrows \<Rightarrow> Inl ReadFailure
             | CatExits code \<Rightarrow> Inl (Exit code)
             | NoContent \<Rightarrow>
                 (case JSON_parse E (removeComments None) of
                    None \<Rightarrow> Inl SyntaxError
                  | Some config \<Rightarrow> Inr config)
             | Content content \<Rightarrow>
                 (case JSON_parse E (removeComments (Some content)) of
                    None \<Rightarrow> Inl SyntaxError
                  | Some config \<Rightarrow> Inr config))
          else Inr (JObj []))"

section \<open>Ignore patterns\<close>

text \<open>
  \<open>name_only ip\<close> is \<^verbatim>\<open>ip.match(/^[^\/]*\/?$/)\<close>: characters other than \<open>/\<close>,
  then at most one \<open>/\<close>, then the end of the pattern.
\<close>

definition name_only :: "string \<Rightarrow> bool" where
  "name_only ip = (let r = dropWhile (\<lambda>c. c \<noteq> CHR ''/'') ip in r = [] \<or> r = ''/'')"

text \<open>
  \<open>ignores_pattern E fp\<close> is the function that isIgnored hands to
  \<open>patterns.some\<close>; falling off its end returns \<open>undefined\<close>, which \<open>some\<close>
  reads as false.  \<^verbatim>\<open>new RegExp("^" + ip + ".*")\<close> is built only when the two
  tests before it hold.
\<close>

definition ignores_pattern :: "env \<Rightarrow> string \<Rightarrow> string \<Rightarrow> failure + bool" where
  "ignores_pattern E fp ip =
     (if minimatch E fp ip then Inr True
      else if path_resolve E [fp] = ip then Inr True
      else if shjs_test_d E fp \<and> name_only ip then
        (case RegExp E (''^'' @ ip @ ''.*'') of
           None \<Rightarrow> Inl SyntaxError
         | Some re \<Rightarrow> Inr (re fp))
      else Inr False)"

text \<open>
  \<open>Array.prototype.some\<close>: true at the first element for which the callback returns
  true; an exception thrown by the callback ends it.
\<close>

fun array_some :: "('a \<Rightarrow> failure + bool) \<Rightarrow> 'a list \<Rightarrow> failure + bool" where
  "array_some f [] = Inr False"
| "array_some f (x # xs) =
     (case f x of
        Inl e \<Rightarrow> Inl e
      | Inr True \<Rightarrow> Inr True
      | Inr False \<Rightarrow> array_some f xs)"

definition isIgnored :: "env \<Rightarrow> string \<Rightarrow> string list \<Rightarrow> failure + bool" where
  "isIgnored E fp patterns = array_some (ignores_pattern E fp) patterns"

section \<open>Collecting files\<close>

text \<open>
  \<^verbatim>\<open>function collect(fp, files, ignores, ext)\<close>.  The state of the walk is the
  array \<open>files\<close> and the directories listed with \<open>shjs.ls\<close> so far.  \<open>ignores\<close>
  is \<open>None\<close> for \<open>undefined\<close>; \<open>ext\<close> is the compiled regular expression, as the
  predicate \<open>fp.match(ext)\<close>.  A file system with a directory that lists itself
  makes the recursion run forever, so collect takes fuel, the depth of recursion it
  may use: \<open>None\<close> is returned when the fuel runs out.
\<close>

record walk =
  files :: "string list"
  listed :: "string list"

fun collect :: "nat \<Rightarrow> env \<Rightarrow> string \<Rightarrow> walk \<Rightarrow> string list option \<Rightarrow> (string \<Rightarrow> bool) \<Rightarrow> (failure + walk) option"
  and collect_items :: "nat \<Rightarrow> env \<Rightarrow> string \<Rightarrow> string list \<Rightarrow> walk \<Rightarrow> string list option \<Rightarrow> (string \<Rightarrow> bool) \<Rightarrow> (failure + walk) option"
where
  "collect 0 E fp w ignores ext = None"
| "collect (Suc n) E fp w ignores ext =
     (case (case ignores of None \<Rightarrow> Inr False | Some patterns \<Rightarrow> isIgnored E fp patterns) of
        Inl e \<Rightarrow> Some (Inl e)
      | Inr True \<Rightarrow> Some (Inr w)
      | Inr False \<Rightarrow>
          if shjs_test_d E fp then
            collect_items n E fp (shjs_ls E fp) (w\<lparr>listed := listed w @ [fp]\<rparr>) ignores ext
          else if ext fp then Some (Inr (w\<lparr>files := files w @ [fp]\<rparr>))
          else Some (Inr w))"
| "collect_items n E fp [] w ignores ext = Some (Inr w)"
| "collect_items n E fp (item # items) w ignores ext =
     (case collect n E (path_join [fp, item]) w ignores ext of
        None \<Rightarrow> None
      | Some (Inl e) \<Rightarrow> Some (Inl e)
      | Some (Inr w') \<Rightarrow> collect_items n E fp items w' ignores ext)"


section \<open>Configuration objects\<close>

text \<open>
  A configuration is a value that \<open>JSON.parse\<close> can return (or one built from
  such values and \<open>NaN\<close>).  \<open>truthy\<close> is JavaScript's conversion to a boolean.
  \<open>json_clone v\<close> is \<open>JSON.parse(JSON.stringify(v))\<close>, which builds a new value:
  \<open>JSON.stringify\<close> writes \<open>null\<close> for an infinity and for \<open>NaN\<close>, and
  \<open>0\<close> for the negative zero, so the new value differs from \<open>v\<close> at these
  numbers and nowhere else (\<open>json_exact v\<close>: \<open>v\<close> holds none of them).
  \<open>get_property\<close> and \<open>delete_property\<close> are \<open>v[k]\<close> and \<open>delete v[k]\<close> (a
  value that is no object has no property \<open>globals\<close>).
\<close>

fun number_truthy :: "jnumber \<Rightarrow> bool" where
  "number_truthy (Finite q) = (q \<noteq> 0)"
| "number_truthy MinusZero = False"
| "number_truthy PlusInfinity = True"
| "number_truthy MinusInfinity = True"
| "number_truthy NaN = False"

fun number_clone :: "jnumber \<Rightarrow> json" where
  "number_clone (Finite q) = JNum (Finite q)"
| "number_clone MinusZero = JNum (Finite 0)"
| "number_clone PlusInfinity = JNull"
| "number_clone MinusInfinity = JNull"
| "number_clone NaN = JNull"

fun truthy :: "json \<Rightarrow> bool" where
  "truthy JNull = False"
| "truthy (JBool b) = b"
| "truthy (JNum n) = number_truthy n"
| "truthy (JStr s) = (s \<noteq> [])"
| "truthy (JArr xs) = True"
| "truthy (JObj kvs) = True"

fun json_clone :: "json \<Rightarrow> json" where
  "json_clone JNull = JNull"
| "json_clone (JBool b) = JBool b"
| "json_clone (JNum n) = number_clone n"
| "json_clone (JStr s) = JStr s"
| "json_clone (JArr xs) = JArr (map json_clone xs)"
| "json_clone (JObj kvs) = JObj (map (\<lambda>(k, v). (k, json_clone v)) kvs)"

fun json_exact :: "json \<Rightarrow> bool" where
  "json_exact (JNum n) = (case n of Finite q \<Rightarrow> True | _ \<Rightarrow> False)"
| "json_exact (JArr xs) = (\<forall>x \<in> set xs. json_exact x)"
| "json_exact (JObj kvs) = (\<forall>kv \<in> set kvs. json_exact (snd kv))"
| "json_exact _ = True"

fun get_property :: "json \<Rightarrow> string \<Rightarrow> json option" where
  "get_property (JObj kvs) k = map_of kvs k"
| "get_property _ k = None"

fun delete_property :: "json \<Rightarrow> string \<Rightarrow> json" where
  "delete_property (JObj kvs) k = JObj (filter (\<lambda>kv. fst kv \<noteq> k) kvs)"
| "delete_property v k = v"

section \<open>The state of a run\<close>

text \<open>
  Objects live in a heap, and a configuration is passed by its address, so that a
  change lint makes to an object is seen by everybody who holds its address.
  \<open>fresh\<close> is the next address that was never used.  The other fields are what a
  run leaves behind: the messages given to \<open>cli.error\<close>, the arguments of every call
  of the engine, the arrays \<open>results\<close> and \<open>data\<close> that run creates and lint
  fills, and the calls of the reporter with the arguments it was given.

  The engine \<open>JSHINT(buffer, config, globals)\<close> is a parameter: a function that
  returns its verdict, \<open>JSHINT.errors\<close> (which may hold \<open>null\<close>) and
  \<open>JSHINT.data()\<close> (\<open>None\<close> when falsy).  It only holds the address of the copy
  that lint makes, so it changes no other object.

  A reporter is a parameter as well.  It is handed the array \<open>results\<close> itself, so
  it may change it: a reporter either fails (it throws or ends the process) or returns,
  leaving some content in \<open>results\<close>.
\<close>

type_synonym addr = nat

type_synonym ('e, 'd) engine = "string \<Rightarrow> json \<Rightarrow> json option \<Rightarrow> bool \<times> 'e option list \<times> 'd option"

type_synonym ('e, 'd) reporter = "(string \<times> 'e) list \<Rightarrow> (string \<times> 'd) list \<Rightarrow> failure + (string \<times> 'e) list"

record ('e, 'd) world =
  heap :: "addr \<Rightarrow> json option"
  fresh :: addr
  cli_errors :: "string list"
  engine_calls :: "(string \<times> json \<times> json option) list"
  results :: "(string \<times> 'e) list"
  data :: "(string \<times> 'd) list"
  reported :: "((string \<times> 'e) list \<times> (string \<times> 'd) list) list"

definition alloc :: "json \<Rightarrow> ('e, 'd) world \<Rightarrow> addr \<times> ('e, 'd) world" where
  "alloc v w = (fresh w, w\<lparr>heap := (heap w)(fresh w \<mapsto> v), fresh := Suc (fresh w)\<rparr>)"

text \<open>
  \<^verbatim>\<open>buffer.replace(/^\uFEFF/, "")\<close>: the byte order mark is the three bytes
  \<open>EF BB BF\<close> in UTF-8.
\<close>

definition strip_bom :: "string \<Rightarrow> string" where
  "strip_bom buffer =
     (if take 3 buffer = [CHR 0xEF, CHR 0xBB, CHR 0xBF] then drop 3 buffer else buffer)"

subsection \<open>lint\<close>

text \<open>
  \<open>or_empty\<close> is \<^verbatim>\<open>config || {}\<close> and \<open>json_copy\<close> is
  \<^verbatim>\<open>JSON.parse(JSON.stringify(config))\<close>: the copy is a new object.
\<close>

definition or_empty :: "addr option \<Rightarrow> ('e, 'd) world \<Rightarrow> addr \<times> ('e, 'd) world" where
  "or_empty config w =
     (case config of
        None \<Rightarrow> alloc (JObj []) w
      | Some a \<Rightarrow>
          (case heap w a of
             None \<Rightarrow> alloc (JObj []) w
           | Some v \<Rightarrow> if truthy v then (a, w) else alloc (JObj []) w))"

definition json_copy :: "addr \<Rightarrow> ('e, 'd) world \<Rightarrow> addr \<times> ('e, 'd) world" where
  "json_copy a w =
     (case heap w a of
        None \<Rightarrow> alloc (JObj []) w
      | Some v \<Rightarrow> alloc (json_clone v) w)"

text \<open>
  \<^verbatim>\<open>function lint(file, results, config, data)\<close>.  The result is \<open>None\<close> when
  lint returns.  The \<open>catch\<close> block runs when \<open>shjs.cat\<close> throws; when it
  returns \<open>null\<close>, \<open>buffer.replace\<close> is called on \<open>null\<close> and throws a
  TypeError that nothing catches.
\<close>

definition lint :: "env \<Rightarrow> ('e, 'd) engine \<Rightarrow> string \<Rightarrow> addr option \<Rightarrow> ('e, 'd) world \<Rightarrow> failure option \<times> ('e, 'd) world" where
  "lint E JSHINT file config w =
     (case or_empty config w of (config1, w1) \<Rightarrow>
      case json_copy config1 w1 of (config2, w2) \<Rightarrow>
      case shjs_cat E file of
        CatThrows \<Rightarrow> (Some (Exit 1), w2\<lparr>cli_errors := cli_errors w2 @ [''Can't open '' @ file]\<rparr>)
      | CatExits code \<Rightarrow> (Some (Exit code), w2)
      | NoContent \<Rightarrow> (Some TypeError, w2)
      | Content content \<Rightarrow>
          (let buffer = strip_bom content;
               copy = (case heap w2 config2 of None \<Rightarrow> JObj [] | Some v \<Rightarrow> v);
               globals = (case get_property copy ''globals'' of
                            None \<Rightarrow> None
                          | Some g \<Rightarrow> if truthy g then Some g else None);
               seen = (if globals = None then copy else delete_property copy ''globals'');
               w3 = w2\<lparr>heap := (heap w2)(config2 \<mapsto> seen),
                       engine_calls := engine_calls w2 @ [(buffer, seen, globals)]\<rparr>
           in case JSHINT buffer seen globals of
                (passed, errors, lintData) \<Rightarrow>
                  (None,
                   w3\<lparr>results := results w3 @
                          (if passed then []
                           else concat (map (\<lambda>err. case err of None \<Rightarrow> [] | Some e \<Rightarrow> [(file, e)]) errors)),
                       data := data w3 @ (case lintData of None \<Rightarrow> [] | Some d \<Rightarrow> [(file, d)])\<rparr>)))"

fun lint_files :: "env \<Rightarrow> ('e, 'd) engine \<Rightarrow> string list \<Rightarrow> addr option \<Rightarrow> ('e, 'd) world \<Rightarrow> failure option \<times> ('e, 'd) world" where
  "lint_files E JSHINT [] config w = (None, w)"
| "lint_files E JSHINT (file # rest) config w =
     (case lint E JSHINT file config w of
        (Some e, w') \<Rightarrow> (Some e, w')
      | (None, w') \<Rightarrow> lint_files E JSHINT rest config w')"

fun collect_targets :: "nat \<Rightarrow> env \<Rightarrow> string list \<Rightarrow> walk \<Rightarrow> string list option \<Rightarrow> (string \<Rightarrow> bool) \<Rightarrow> (failure + walk) option" where
  "collect_targets n E [] w ignores ext = Some (Inr w)"
| "collect_targets n E (target # targets) w ignores ext =
     (case collect n E target w ignores ext of
        None \<Rightarrow> None
      | Some (Inl e) \<Rightarrow> Some (Inl e)
      | Some (Inr w') \<Rightarrow> collect_targets n E targets w' ignores ext)"

subsection \<open>run\<close>

text \<open>
  The source of the regular expression for the extensions:
  \<^verbatim>\<open>"\\.(js" + (opts.extensions === "" ? "" : "|" +
    opts.extensions.replace(/,/g, "|").replace(/[\. ]/g, "")) + ")$"\<close>.
\<close>

definition extension_source :: "string \<Rightarrow> string" where
  "extension_source extensions =
     [CHR 0x5C] @ ''.(js'' @
     (if extensions = [] then []
      else ''|'' @ filter (\<lambda>c. c \<noteq> CHR ''.'' \<and> c \<noteq> CHR '' '')
                     (map (\<lambda>c. if c = CHR '','' then CHR ''|'' else c) extensions)) @
     '')$''"

text \<open>
  \<open>reporter\<close> is the custom reporter, \<open>None\<close> for \<open>undefined\<close>, and
  \<open>defReporter\<close> is the built-in one.  run returns \<open>None\<close> when collect runs
  out of fuel, and otherwise how it ended together with the state it left.  Its
  result is \<open>results.length === 0\<close>, read after the reporter has returned.
\<close>

record ('e, 'd) options =
  args :: "string list"
  config :: "addr option"
  reporter :: "('e, 'd) reporter option"
  ignores :: "string list option"
  extensions :: string

definition run :: "nat \<Rightarrow> env \<Rightarrow> ('e, 'd) engine \<Rightarrow> ('e, 'd) reporter \<Rightarrow> ('e, 'd) options \<Rightarrow> ('e, 'd) world \<Rightarrow> ((failure + bool) \<times> ('e, 'd) world) option" where
  "run fuel E JSHINT defReporter opts w =
     (let w0 = w\<lparr>results := [], data := []\<rparr>
      in case RegExp E (extension_source (extensions opts)) of
           None \<Rightarrow> Some (Inl SyntaxError, w0)
         | Some reg \<Rightarrow>
             (case collect_targets fuel E (args opts) \<lparr>files = [], listed = []\<rparr> (ignores opts) reg of
                None \<Rightarrow> None
              | Some (Inl e) \<Rightarrow> Some (Inl e, w0)
              | Some (Inr found) \<Rightarrow>
                  (case lint_files E JSHINT (files found) (config opts) w0 of
                     (Some e, w1) \<Rightarrow> Some (Inl e, w1)
                   | (None, w1) \<Rightarrow>
                       (let w2 = w1\<lparr>reported := reported w1 @ [(results w1, data w1)]\<rparr>
                        in case (case reporter opts of None \<Rightarrow> defReporter | Some r \<Rightarrow> r)
                                  (results w1) (data w1) of
                             Inl e \<Rightarrow> Some (Inl e, w2)
                           | Inr left \<Rightarrow> Some (Inr (left = []), w2\<lparr>results := left\<rparr>)))))"

section \<open>Example environments\<close>

text \<open>
  \<open>nested_env\<close>: the working directory is \<open>/home/u/proj\<close> and \<open>.jshintrc\<close> lies
  in its parent \<open>/home/u\<close>.  \<open>bare_env\<close>: a working directory five levels deep,
  with files, none of them a \<open>.jshintrc\<close>.
\<close>

definition nested_env :: env where
  "nested_env = \<lparr> cwd_parts = [''home'', ''u'', ''proj''], env_HOME = ''/root'',
     shjs_test_e = (\<lambda>p. p \<in> {''/home/u/.jshintrc'', ''/home/u/proj/main.js''}),
     shjs_test_d = (\<lambda>p. False), shjs_ls = (\<lambda>p. []),
     shjs_cat = (\<lambda>p. NoContent), minimatch = (\<lambda>f p. False), RegExp = (\<lambda>s. None), JSON_parse = (\<lambda>s. None) \<rparr>"

definition bare_env :: env where
  "bare_env = \<lparr> cwd_parts = [''srv'', ''app'', ''src'', ''lib'', ''util''], env_HOME = ''/root'',
     shjs_test_e = (\<lambda>p. p \<in> {''/srv/app/package.json'', ''/srv/app/src/lib/util/a.js''}),
     shjs_test_d = (\<lambda>p. False), shjs_ls = (\<lambda>p. []),
     shjs_cat = (\<lambda>p. NoContent), minimatch = (\<lambda>f p. False), RegExp = (\<lambda>s. None), JSON_parse = (\<lambda>s. None) \<rparr>"


text \<open>
  \<open>config_env\<close>: a directory \<open>/p\<close> with a commented \<open>.jshintrc\<close> and a file that
  is no JSON.  Its JSON parser reads the one text the example needs and rejects every
  other text.
\<close>

definition config_env :: env where
  \<open>config_env = \<lparr> cwd_parts = [''p''], env_HOME = ''/root'',
     shjs_test_e = (\<lambda>p. p \<in> {''/p/.jshintrc'', ''/p/bad.json'', ''/p''}),
     shjs_test_d = (\<lambda>p. p = ''/p''), shjs_ls = (\<lambda>p. if p = ''/p'' then [''.jshintrc'', ''bad.json''] else []),
     shjs_cat = (\<lambda>p. if p = ''/p/.jshintrc'' then Content ''/* c */ {"undef":true} // x''
                    else if p = ''/p/bad.json'' then Content ''{oops'' else NoContent),
     minimatch = (\<lambda>f p. f = p), RegExp = (\<lambda>s. None),
     JSON_parse = (\<lambda>s. if s = '' {"undef":true} '' then Some (JObj [(''undef'', JBool True)]) else None) \<rparr>\<close>

text \<open>
  \<open>lib_env\<close>: a project with the directories \<open>lib\<close> and \<open>lib/sub\<close>, given by
  relative paths.  Its glob matcher is minimatch on patterns without wildcards (the
  path has to be the pattern), and its \<open>RegExp\<close> builds the two expressions the
  examples need: \<open>/^lib.*/\<close> matches the subjects that start with \<open>lib\<close>.
\<close>

definition lib_env :: env where
  "lib_env = \<lparr> cwd_parts = [''home'', ''u'', ''proj''], env_HOME = ''/root'',
     shjs_test_e = (\<lambda>p. p \<in> {''lib'', ''lib/sub'', ''lib/sub/a.js'', ''main.js''}),
     shjs_test_d = (\<lambda>p. p \<in> {''lib'', ''lib/sub''}),
     shjs_ls = (\<lambda>p. if p = ''lib'' then [''sub''] else if p = ''lib/sub'' then [''a.js''] else []),
     shjs_cat = (\<lambda>p. NoContent),
     minimatch = (\<lambda>f p. f = p),
     RegExp = (\<lambda>s. if s = ''^lib.*'' then Some (prefix ''lib'')
                   else if s = ''^vendor/.*'' then Some (prefix ''vendor/'') else None),
     JSON_parse = (\<lambda>s. None) \<rparr>"


text \<open>
  \<open>tree_env\<close>: the directory \<open>/a\<close> with \<open>b.js\<close> and a subdirectory \<open>sub\<close>
  that holds \<open>c.js\<close>, a \<open>locked.js\<close> that cannot be read (shelljs ends the
  process there), and \<open>notes.txt\<close>.  For every path that names no file,
  \<open>shjs.cat\<close> returns \<open>null\<close>.  Its \<open>RegExp\<close> builds the expression of the
  default extension, \<open>/\.(js)$/\<close>: the subject ends with \<open>.js\<close>.
\<close>

definition tree_env :: env where
  "tree_env = \<lparr> cwd_parts = [], env_HOME = ''/root'',
     shjs_test_e = (\<lambda>p. p \<in> {''/a'', ''/a/b.js'', ''/a/sub'', ''/a/sub/c.js'', ''/a/sub/locked.js'', ''/a/sub/notes.txt''}),
     shjs_test_d = (\<lambda>p. p \<in> {''/a'', ''/a/sub''}),
     shjs_ls = (\<lambda>p. if p = ''/a'' then [''b.js'', ''sub'']
                   else if p = ''/a/sub'' then [''c.js'', ''locked.js'', ''notes.txt''] else []),
     shjs_cat = (\<lambda>p. if p = ''/a/b.js'' then Content ''var b;''
                    else if p = ''/a/sub/c.js'' then Content ''c = 1''
                    else if p = ''/a/sub/locked.js'' then CatExits 1 else NoContent),
     minimatch = (\<lambda>f p. f = p),
     RegExp = (\<lambda>s. if s = [CHR 0x5C] @ ''.(js)$'' then Some (\<lambda>f. suffix ''.js'' f) else None),
     JSON_parse = (\<lambda>s. None) \<rparr>"

text \<open>
  Two engines: \<open>quiet_engine\<close> passes every file and reports nothing;
  \<open>strict_engine\<close> finds one error in the text \<open>c = 1\<close> (its error list ends
  with \<open>null\<close>, as JSHINT's does when it gives up) and returns data for every file.
\<close>

definition quiet_engine :: "(string, string) engine" where
  "quiet_engine = (\<lambda>buffer cfg globals. (True, [], None))"

definition strict_engine :: "(string, string) engine" where
  "strict_engine = (\<lambda>buffer cfg globals.
     if buffer = ''c = 1'' then (False, [Some ''Missing semicolon.'', None], Some ''1 global'')
     else (True, [], Some ''no globals''))"

text \<open>
  Two states in which address 0 holds a configuration: the specification's example
  \<open>{"globals": {"x": true}, "undef": true}\<close>, and \<open>{"globals": false, "undef": true}\<close>.
\<close>

definition spec_world :: "(string, string) world" where
  "spec_world = \<lparr> heap = (\<lambda>a. if a = 0 then Some (JObj [(''globals'', JObj [(''x'', JBool True)]), (''undef'', JBool True)]) else None),
     fresh = 1, cli_errors = [], engine_calls = [], results = [], data = [], reported = [] \<rparr>"

definition falsy_world :: "(string, string) world" where
  "falsy_world = \<lparr> heap = (\<lambda>a. if a = 0 then Some (JObj [(''globals'', JBool False), (''undef'', JBool True)]) else None),
     fresh = 1, cli_errors = [], engine_calls = [], results = [], data = [], reported = [] \<rparr>"

text \<open>
  \<open>huge_world\<close>: the configuration \<open>{"globals": Infinity, "undef": true}\<close>, as
  \<open>JSON.parse\<close> returns it for the text \<open>{"globals": 1e400, "undef": true}\<close>.
\<close>

definition huge_world :: "(string, string) world" where
  "huge_world = \<lparr> heap = (\<lambda>a. if a = 0 then Some (JObj [(''globals'', JNum PlusInfinity), (''undef'', JBool True)]) else None),
     fresh = 1, cli_errors = [], engine_calls = [], results = [], data = [], reported = [] \<rparr>"

text \<open>
  A reporter that returns and leaves \<open>results\<close> as it is, and the options of a run
  on given targets, with the configuration at address 0 and no custom reporter.
\<close>

definition plain_reporter :: "(string, string) reporter" where
  "plain_reporter = (\<lambda>found extra. Inr found)"

definition tree_opts :: "string list \<Rightarrow> (string, string) options" where
  "tree_opts targets = \<lparr> args = targets, config = Some 0, reporter = None, ignores = None, extensions = [] \<rparr>"

section \<open>The ignore rule as the specification words it\<close>

text \<open>
  The specification's wording of isIgnored, to compare the code with: a path is
  ignored when some pattern matches it as a glob, or is its absolute form, or the path
  is a directory, the pattern holds no separator (or one, at its end) and the absolute
  form of the path starts with the pattern.
\<close>

definition isIgnored_spec :: "env \<Rightarrow> string \<Rightarrow> string list \<Rightarrow> bool" where
  "isIgnored_spec E p P =
     (\<exists>ip \<in> set P.
        minimatch E p ip
        \<or> path_resolve E [p] = ip
        \<or> (shjs_test_d E p \<and> name_only ip \<and> prefix ip (path_resolve E [p])))"

section \<open>Comment stripping\<close>

lemma block_close_subseq: "block_close r = Some r' \<Longrightarrow> subseq r' r"
  by (induction r rule: block_close.induct) (auto split: if_splits)

lemma replace_block_subseq: "subseq (replace_block s) s"
proof (induction s rule: replace_block.induct)
  case (3 a b r)
  show ?case
  proof (cases "a = CHR ''/'' \<and> b = CHR ''*''")
    case True
    show ?thesis
    proof (cases "block_close r")
      case None
      with True 3 show ?thesis by simp
    next
      case (Some r')
      with True 3 have "subseq (replace_block r') r'" by simp
      moreover have "subseq r' r" using Some by (rule block_close_subseq)
      ultimately have "subseq (replace_block r') (a # b # r)"
        by (meson subseq_order.trans list_emb_Cons)
      with True Some show ?thesis by simp
    qed
  next
    case False
    with 3 show ?thesis by auto
  qed
qed simp_all

lemma dropWhile_subseq: "subseq (dropWhile P r) r"
  by (induction r) auto

lemma replace_line_subseq: "subseq (replace_line s) s"
proof (induction s rule: replace_line.induct)
  case (3 a b r)
  let ?d = "dropWhile (\<lambda>c. c \<noteq> LF \<and> c \<noteq> CR) r"
  show ?case
  proof (cases "a = CHR ''/'' \<and> b = CHR ''/''")
    case True
    with 3 have "subseq (replace_line ?d) ?d" by simp
    then have "subseq (replace_line ?d) r"
      using dropWhile_subseq subseq_order.trans by blast
    then have "subseq (replace_line ?d) (a # b # r)"
      by (simp add: list_emb_Cons)
    with True show ?thesis by simp
  next
    case False
    with 3 show ?thesis by auto
  qed
qed simp_all

lemma replace_block_fix: "\<not> has_pair CHR ''/'' CHR ''*'' s \<Longrightarrow> replace_block s = s"
  by (induction s rule: replace_block.induct) auto

lemma replace_line_fix: "\<not> has_pair CHR ''/'' CHR ''/'' s \<Longrightarrow> replace_line s = s"
  by (induction s rule: replace_line.induct) auto

lemma replace_line_keep: "b \<noteq> CHR ''/'' \<Longrightarrow> replace_line (b # r) = b # replace_line r"
  by (cases r) auto

lemma replace_line_no_slashes: "\<not> has_pair CHR ''/'' CHR ''/'' (replace_line s)"
proof (induction s rule: replace_line.induct)
  case (3 a b r)
  show ?case
  proof (cases "a = CHR ''/'' \<and> b = CHR ''/''")
    case True
    with 3 show ?thesis by simp
  next
    case False
    then consider "a \<noteq> CHR ''/''" | "a = CHR ''/''" "b \<noteq> CHR ''/''" by blast
    then show ?thesis
    proof cases
      case 1
      with 3 False show ?thesis by (cases "replace_line (b # r)") auto
    next
      case 2
      with 3 False show ?thesis by (simp add: replace_line_keep)
    qed
  qed
qed simp_all

lemma block_close_first:
  "\<not> has_pair CHR ''*'' CHR ''/'' body \<Longrightarrow> block_close (body @ CHR ''*'' # CHR ''/'' # rest) = Some rest"
  by (induction body rule: block_close.induct) auto

lemma replace_block_comment:
  "\<not> has_pair CHR ''*'' CHR ''/'' body \<Longrightarrow>
   replace_block (CHR ''/'' # CHR ''*'' # body @ CHR ''*'' # CHR ''/'' # rest) = replace_block rest"
  by (simp add: block_close_first)

lemma replace_block_keep:
  "\<not> has_pair CHR ''/'' CHR ''*'' (u @ take 1 v) \<Longrightarrow> replace_block (u @ v) = u @ replace_block v"
proof (induction u)
  case Nil
  show ?case by simp
next
  case (Cons a u)
  show ?case
  proof (cases "u @ v")
    case Nil
    then show ?thesis by simp
  next
    case (Cons b r)
    then have "\<exists>t. u @ take 1 v = b # t" by (cases u; cases v) auto
    then obtain t where t: "u @ take 1 v = b # t" by blast
    with Cons.prems have ab: "\<not> (a = CHR ''/'' \<and> b = CHR ''*'')" and rest: "\<not> has_pair CHR ''/'' CHR ''*'' (u @ take 1 v)"
      by auto
    have "replace_block ((a # u) @ v) = replace_block (a # b # r)" using Cons by simp
    also have "\<dots> = a # replace_block (b # r)" using ab by auto
    also have "\<dots> = a # replace_block (u @ v)" using Cons by simp
    also have "\<dots> = a # u @ replace_block v" using Cons.IH rest by simp
    finally show ?thesis by simp
  qed
qed

lemma replace_line_comment:
  "\<forall>c \<in> set t. c \<noteq> LF \<and> c \<noteq> CR \<Longrightarrow> e = LF \<or> e = CR \<Longrightarrow>
   replace_line (CHR ''/'' # CHR ''/'' # t @ e # rest) = replace_line (e # rest)"
  by (auto simp: dropWhile_append2)


lemma has_pair_snoc:
  "has_pair x y (u @ [e]) = (has_pair x y u \<or> (u \<noteq> [] \<and> last u = x \<and> e = y))"
  by (induction u rule: has_pair.induct) auto

lemma replace_block_keep1: "e \<noteq> CHR ''/'' \<Longrightarrow> replace_block (e # r) = e # replace_block r"
  by (cases r) auto

lemma replace_line_keep_prefix:
  "\<not> has_pair CHR ''/'' CHR ''/'' (u @ take 1 v) \<Longrightarrow> replace_line (u @ v) = u @ replace_line v"
proof (induction u)
  case Nil
  show ?case by simp
next
  case (Cons a u)
  show ?case
  proof (cases "u @ v")
    case Nil
    then show ?thesis by simp
  next
    case (Cons b r)
    then have "\<exists>t. u @ take 1 v = b # t" by (cases u; cases v) auto
    then obtain t where t: "u @ take 1 v = b # t" by blast
    with Cons.prems have ab: "\<not> (a = CHR ''/'' \<and> b = CHR ''/'')" and rest: "\<not> has_pair CHR ''/'' CHR ''/'' (u @ take 1 v)"
      by auto
    have "replace_line ((a # u) @ v) = replace_line (a # b # r)" using Cons by simp
    also have "\<dots> = a # replace_line (b # r)" using ab by auto
    also have "\<dots> = a # replace_line (u @ v)" using Cons by simp
    also have "\<dots> = a # u @ replace_line v" using Cons.IH rest by simp
    finally show ?thesis by simp
  qed
qed

lemma replace_block_inner:
  assumes "\<not> has_pair CHR ''/'' CHR ''*'' pre" and "\<not> has_pair CHR ''*'' CHR ''/'' body"
  shows "replace_block (pre @ ''/*'' @ body @ ''*/'' @ rest) = pre @ replace_block rest"
proof -
  have "\<not> has_pair CHR ''/'' CHR ''*'' (pre @ [CHR ''/''])"
    using assms(1) unfolding has_pair_snoc by simp
  then have "\<not> has_pair CHR ''/'' CHR ''*'' (pre @ take 1 (''/*'' @ body @ ''*/'' @ rest))"
    by simp
  then have "replace_block (pre @ ''/*'' @ body @ ''*/'' @ rest) = pre @ replace_block (''/*'' @ body @ ''*/'' @ rest)"
    by (rule replace_block_keep)
  also have "replace_block (''/*'' @ body @ ''*/'' @ rest) = replace_block rest"
    using replace_block_comment [OF assms(2), of rest] by simp
  finally show ?thesis .
qed

lemma replace_line_inner:
  assumes "\<not> has_pair CHR ''/'' CHR ''/'' (pre @ ''/'')" and "\<forall>c \<in> set t. c \<noteq> LF \<and> c \<noteq> CR"
  shows "replace_line (pre @ ''//'' @ t) = pre"
    and "e = LF \<or> e = CR \<Longrightarrow> replace_line (pre @ ''//'' @ t @ e # after) = pre @ replace_line (e # after)"
proof -
  have k: "\<And>v. replace_line (pre @ ''//'' @ v) = pre @ replace_line (''//'' @ v)"
  proof -
    fix v
    have "\<not> has_pair CHR ''/'' CHR ''/'' (pre @ take 1 (''//'' @ v))" using assms(1) by simp
    then show "replace_line (pre @ ''//'' @ v) = pre @ replace_line (''//'' @ v)"
      by (rule replace_line_keep_prefix)
  qed
  have d: "dropWhile (\<lambda>c. c \<noteq> LF \<and> c \<noteq> CR) t = []"
    using assms(2) by (simp add: dropWhile_eq_Nil_conv)
  have "replace_line (''//'' @ t) = replace_line (dropWhile (\<lambda>c. c \<noteq> LF \<and> c \<noteq> CR) t)"
    by simp
  then have "replace_line (''//'' @ t) = []" by (simp only: d replace_line.simps)
  with k [of t] show "replace_line (pre @ ''//'' @ t) = pre" by simp
  assume "e = LF \<or> e = CR"
  then have "replace_line (''//'' @ t @ e # after) = replace_line (e # after)"
    using replace_line_comment [OF assms(2), of e after] by simp
  with k [of "t @ e # after"] show "replace_line (pre @ ''//'' @ t @ e # after) = pre @ replace_line (e # after)"
    by simp
qed

text \<open>
  What the two passes do.  The first removes a block comment \<open>/* body */\<close> whose
  body holds no \<open>*/\<close> (a comment ends at the first \<open>*/\<close>), where no \<open>/*\<close>
  opens in the text before it.  The second removes a line comment from \<open>//\<close> up to
  the line feed or carriage return that ends it, or up to the end of the text, where no
  \<open>//\<close> opens before it.  The result is a subsequence of the text and holds no
  \<open>//\<close>, and a second application changes nothing when it holds no \<open>/*\<close>.
\<close>

lemma removeComments_passes:
  "removeComments (Some s) = replace_line (replace_block s)
   \<and> (\<not> has_pair CHR ''/'' CHR ''*'' pre \<and> \<not> has_pair CHR ''*'' CHR ''/'' body \<longrightarrow>
      replace_block (pre @ ''/*'' @ body @ ''*/'' @ rest) = pre @ replace_block rest)
   \<and> (\<not> has_pair CHR ''/'' CHR ''/'' (pre @ ''/'') \<and> (\<forall>c \<in> set t. c \<noteq> LF \<and> c \<noteq> CR) \<and> (e = LF \<or> e = CR) \<longrightarrow>
      replace_line (pre @ ''//'' @ t @ e # after) = pre @ replace_line (e # after))
   \<and> (\<not> has_pair CHR ''/'' CHR ''/'' (pre @ ''/'') \<and> (\<forall>c \<in> set t. c \<noteq> LF \<and> c \<noteq> CR) \<longrightarrow>
      replace_line (pre @ ''//'' @ t) = pre)
   \<and> subseq (removeComments (Some s)) s
   \<and> \<not> has_pair CHR ''/'' CHR ''/'' (removeComments (Some s))
   \<and> (\<not> has_pair CHR ''/'' CHR ''*'' (removeComments (Some s)) \<longrightarrow>
      removeComments (Some (removeComments (Some s))) = removeComments (Some s))"
proof (intro conjI impI)
  show "removeComments (Some s) = replace_line (replace_block s)"
    by (simp add: removeComments_def)
next
  assume h: "\<not> has_pair CHR ''/'' CHR ''*'' pre \<and> \<not> has_pair CHR ''*'' CHR ''/'' body"
  show "replace_block (pre @ ''/*'' @ body @ ''*/'' @ rest) = pre @ replace_block rest"
    by (rule replace_block_inner [OF conjunct1 [OF h] conjunct2 [OF h]])
next
  assume h: "\<not> has_pair CHR ''/'' CHR ''/'' (pre @ ''/'') \<and> (\<forall>c \<in> set t. c \<noteq> LF \<and> c \<noteq> CR) \<and> (e = LF \<or> e = CR)"
  show "replace_line (pre @ ''//'' @ t @ e # after) = pre @ replace_line (e # after)"
    by (rule replace_line_inner(2) [OF conjunct1 [OF h] conjunct1 [OF conjunct2 [OF h]] conjunct2 [OF conjunct2 [OF h]]])
next
  assume h: "\<not> has_pair CHR ''/'' CHR ''/'' (pre @ ''/'') \<and> (\<forall>c \<in> set t. c \<noteq> LF \<and> c \<noteq> CR)"
  show "replace_line (pre @ ''//'' @ t) = pre"
    by (rule replace_line_inner(1) [OF conjunct1 [OF h] conjunct2 [OF h]])
next
  have "subseq (replace_line (replace_block s)) (replace_block s)" by (rule replace_line_subseq)
  then show "subseq (removeComments (Some s)) s"
    unfolding removeComments_def using replace_block_subseq [of s] subseq_order.trans by auto
next
  show "\<not> has_pair CHR ''/'' CHR ''/'' (removeComments (Some s))"
    by (simp add: removeComments_def replace_line_no_slashes)
next
  assume "\<not> has_pair CHR ''/'' CHR ''*'' (removeComments (Some s))"
  then have "replace_block (removeComments (Some s)) = removeComments (Some s)"
    by (rule replace_block_fix)
  moreover have "replace_line (removeComments (Some s)) = removeComments (Some s)"
    by (rule replace_line_fix) (simp add: removeComments_def replace_line_no_slashes)
  ultimately show "removeComments (Some (removeComments (Some s))) = removeComments (Some s)"
    by (simp add: removeComments_def)
qed

text \<open>
  The example of the specification, \<open>/* x */ {"a":1} // y\<close>: the result is
  \<open> {"a":1} \<close>, which differs from \<open>{"a":1}\<close> in blanks only, and a second
  application returns it unchanged.
\<close>

lemma removeComments_example:
  \<open>removeComments (Some ''/* x */ {"a":1} // y'') = '' {"a":1} ''
   \<and> filter (\<lambda>c. c \<noteq> CHR '' '') (removeComments (Some ''/* x */ {"a":1} // y'')) = ''{"a":1}''
   \<and> removeComments (Some (removeComments (Some ''/* x */ {"a":1} // y''))) = removeComments (Some ''/* x */ {"a":1} // y'')\<close>
  by (simp add: removeComments_def)

text \<open>
  C8 fails.  The block pass runs over the whole text first, also over the inside of a
  line comment.  On \<open>//**/**/\<close>, which is one line comment, it removes the
  \<open>/**/\<close> that starts at the second character; the rest closes up to \<open>/**/\<close>,
  which the line pass keeps.  So the result is a comment, and a second application
  changes it, to the empty text.  On the two lines \<open>a // b /* c\<close> and
  \<open>d */ e\<close> the block pass removes from the \<open>/*\<close> inside the line comment to
  the \<open>*/\<close> of the second line, and the line pass removes the rest: the words
  \<open>d\<close> and \<open>e\<close>, which are in no comment, are not preserved.
\<close>

theorem removeComments_leaves_comment:
  "removeComments (Some ''//**/**/'') = ''/**/''
   \<and> removeComments (Some (removeComments (Some ''//**/**/''))) = []
   \<and> removeComments (Some (removeComments (Some ''//**/**/''))) \<noteq> removeComments (Some ''//**/**/'')
   \<and> removeComments (Some (''a // b /* c'' @ LF # ''d */ e'')) = ''a ''"
  by (simp add: removeComments_def)


text \<open>
  C10.  Called with \<open>null\<close> or \<open>undefined\<close> in place of a string, removeComments
  returns the empty string.
\<close>

theorem removeComments_missing: "removeComments None = []"
  by (simp add: removeComments_def)
section \<open>Upward search\<close>

lemma js_join_nonempty: "cs \<noteq> [] \<Longrightarrow> last cs \<noteq> [] \<Longrightarrow> js_join sep cs \<noteq> []"
  by (induction cs rule: induct_list012) auto

lemma last_js_join: "cs \<noteq> [] \<Longrightarrow> last cs \<noteq> [] \<Longrightarrow> last (js_join sep cs) = last (last cs)"
proof (induction cs rule: induct_list012)
  case (3 x y zs)
  then have "js_join sep (y # zs) \<noteq> []" using js_join_nonempty [of "y # zs" sep] by simp
  then have "last (x @ sep @ js_join sep (y # zs)) = last (js_join sep (y # zs))" by simp
  with 3 show ?case by simp
qed simp_all

lemma normalize_abs_path:
  assumes "clean cs" "dotfree cs" "cs \<noteq> []"
  shows "path_normalize (abs_path cs) = abs_path cs"
proof -
  have l: "last cs \<noteq> []" "CHR ''/'' \<notin> set (last cs)" using assms by (auto simp: clean_def)
  then have "last (js_join ''/'' cs) = last (last cs)" using assms by (simp add: last_js_join)
  moreover have ne: "js_join ''/'' cs \<noteq> []" using assms l by (simp add: js_join_nonempty)
  moreover have "last (last cs) \<noteq> CHR ''/''"
  proof
    assume "last (last cs) = CHR ''/''"
    moreover have "last (last cs) \<in> set (last cs)" using l by simp
    ultimately show False using l by simp
  qed
  ultimately have nt: "last (abs_path cs) \<noteq> CHR ''/''"
    by (simp add: abs_path_def)
  have "path_parts (abs_path cs) = cs" using assms by (simp add: abs_path_def path_parts_abs)
  moreover have "normalizeArray cs False = cs" using assms by (simp add: normalizeArray_fst na_fold_dotfree)
  ultimately show ?thesis
    using nt ne unfolding path_normalize_def Let_def by (simp add: abs_path_def)
qed

lemma join_dir_name:
  assumes "dir \<noteq> []" "hd dir = CHR ''/''" "name \<noteq> []" "CHR ''/'' \<notin> set name" "name \<noteq> ''.''" "name \<noteq> ''..''"
  shows "path_normalize (path_join [dir, name]) = abs_path (dir_parts E dir @ [name])"
proof -
  let ?cs = "dir_parts E dir @ [name]"
  have c: "clean ?cs" "dotfree ?cs"
    using dir_parts_clean [of E dir] dir_parts_dotfree [of E dir] assms by (auto simp: clean_def dotfree_def)
  have pp: "path_parts (dir @ ''/'' @ name) = path_parts dir @ [name]"
    using path_parts_append [of dir name] assms by (simp add: path_parts_def split_on_none)
  have "foldr na_step (path_parts dir) ([name], 0) =
      (fst (foldr na_step (path_parts dir) ([], 0)) @ [name], snd (foldr na_step (path_parts dir) ([], 0)))"
    by (rule na_fold_acc)
  then have na: "normalizeArray (path_parts dir @ [name]) False = ?cs"
    using assms by (simp add: normalizeArray_fst dir_parts_def)
  have ne: "js_join ''/'' ?cs \<noteq> []" using assms by (simp add: js_join_nonempty)
  have "last name \<noteq> CHR ''/''"
  proof
    assume "last name = CHR ''/''"
    moreover have "last name \<in> set name" using assms by simp
    ultimately show False using assms by simp
  qed
  then have "last (dir @ ''/'' @ name) \<noteq> CHR ''/''" using assms by simp
  then have "path_normalize (dir @ ''/'' @ name) = abs_path ?cs"
    using assms ne pp na unfolding path_normalize_def Let_def by (simp add: abs_path_def)
  then have "path_join [dir, name] = abs_path ?cs"
    using assms by (simp add: path_join_def)
  then show ?thesis using c by (simp add: normalize_abs_path)
qed


lemma clean_butlast: "clean cs \<Longrightarrow> clean (butlast cs)"
  by (auto simp: clean_def dest: in_set_butlastD)

lemma dotfree_butlast: "dotfree cs \<Longrightarrow> dotfree (butlast cs)"
  by (auto simp: dotfree_def dest: in_set_butlastD)

lemma take_butlast1: "k \<le> length (butlast cs) \<Longrightarrow> take k (butlast cs) = take k cs"
proof (cases "cs = []")
  case True
  then show ?thesis by simp
next
  case False
  assume "k \<le> length (butlast cs)"
  then have "k \<le> length cs - 1" by simp
  moreover have "0 < length cs" using False by simp
  ultimately have "k < length cs" by arith
  then show ?thesis by (rule take_butlast)
qed

lemma take_butlast2: "k \<le> length (butlast (butlast cs)) \<Longrightarrow> take k (butlast (butlast cs)) = take k cs"
proof -
  assume k: "k \<le> length (butlast (butlast cs))"
  then have "take k (butlast (butlast cs)) = take k (butlast cs)" by (rule take_butlast1)
  moreover have "k \<le> length (butlast cs)" using k by simp
  ultimately show ?thesis by (simp add: take_butlast1)
qed

lemma findFile_found: "findFile E name dir = Some f \<Longrightarrow> shjs_test_e E f"
proof (induction E name dir rule: findFile.induct)
  case (1 E name dir)
  let ?d = "findFile_dir E dir"
  let ?f = "path_normalize (path_join [?d, name])"
  let ?p = "path_resolve E [?d, ''../../'']"
  have eq: "findFile E name dir =
     (if shjs_test_e E ?f then Some ?f else if ?d = ?p then None else findFile E name (Some ?p))"
    by (subst findFile.simps) (simp add: findFile_dir_def Let_def)
  show ?case
  proof (cases "shjs_test_e E ?f")
    case True
    with eq "1.prems" show ?thesis by simp
  next
    case False
    show ?thesis
    proof (cases "?d = ?p")
      case True
      with eq False "1.prems" show ?thesis by simp
    next
      case ne: False
      with eq False "1.prems" have "findFile E name (Some ?p) = Some f" by simp
      then show ?thesis
        using "1.IH" [OF refl refl refl] False ne by (simp add: findFile_dir_def)
    qed
  qed
qed

lemma findFile_absent_abs:
  assumes "name \<noteq> []" "CHR ''/'' \<notin> set name" "name \<noteq> ''.''" "name \<noteq> ''..''"
  shows "clean cs \<Longrightarrow> dotfree cs \<Longrightarrow>
     \<forall>j. \<not> shjs_test_e E (abs_path (take (length cs - 2 * j) cs @ [name])) \<Longrightarrow>
     findFile E name (Some (abs_path cs)) = None"
proof (induction cs rule: length_induct)
  case (1 cs)
  let ?d = "abs_path cs"
  let ?bb = "butlast (butlast cs)"
  have d: "?d \<noteq> []" "hd ?d = CHR ''/''" by (simp_all add: abs_path_def)
  have dp: "dir_parts E ?d = cs" using "1.prems" by (simp add: dir_parts_abs_path)
  have f: "path_normalize (path_join [?d, name]) = abs_path (cs @ [name])"
    using join_dir_name [OF d assms, of E] dp by simp
  have p: "path_resolve E [?d, ''../../''] = abs_path ?bb"
    using resolve_parent [OF d(1), of E] dp by simp
  have nf: "\<not> shjs_test_e E (abs_path (cs @ [name]))"
    using "1.prems"(3) by (auto dest: spec [of _ 0])
  have eq: "findFile E name (Some ?d) =
     (if ?d = abs_path ?bb then None else findFile E name (Some (abs_path ?bb)))"
    using d nf by (subst findFile.simps) (simp add: Let_def f p)
  show ?case
  proof (cases "cs = []")
    case True
    with eq show ?thesis by simp
  next
    case False
    then have len: "length ?bb < length cs" by simp
    have c: "clean ?bb" "dotfree ?bb"
      using "1.prems"(1,2) by (simp_all add: clean_butlast dotfree_butlast)
    have "\<forall>j. \<not> shjs_test_e E (abs_path (take (length ?bb - 2 * j) ?bb @ [name]))"
    proof
      fix j
      have "take (length ?bb - 2 * j) ?bb = take (length ?bb - 2 * j) cs"
        by (rule take_butlast2) simp
      moreover have "length ?bb - 2 * j = length cs - 2 * Suc j" by simp
      ultimately show "\<not> shjs_test_e E (abs_path (take (length ?bb - 2 * j) ?bb @ [name]))"
        using "1.prems"(3) by (auto dest: spec [of _ "Suc j"])
    qed
    then have "findFile E name (Some (abs_path ?bb)) = None"
      using "1.IH" len c by blast
    with eq show ?thesis by simp
  qed
qed

lemma findFile_every_other_level:
  assumes "name \<noteq> []" "CHR ''/'' \<notin> set name" "name \<noteq> ''.''" "name \<noteq> ''..''"
    and "\<forall>j. \<not> shjs_test_e E (abs_path (take (length (dir_parts E (process_cwd E)) - 2 * j) (dir_parts E (process_cwd E)) @ [name]))"
  shows "findFile E name None = None"
proof -
  let ?d = "process_cwd E"
  let ?cs = "dir_parts E ?d"
  let ?bb = "butlast (butlast ?cs)"
  have d: "?d \<noteq> []" "hd ?d = CHR ''/''" by (simp_all add: process_cwd_def)
  have f: "path_normalize (path_join [?d, name]) = abs_path (?cs @ [name])"
    using join_dir_name [OF d assms(1-4), of E] by simp
  have p: "path_resolve E [?d, ''../../''] = abs_path ?bb"
    using resolve_parent [OF d(1), of E] by simp
  have nf: "\<not> shjs_test_e E (abs_path (?cs @ [name]))"
    using assms(5) by (auto dest: spec [of _ 0])
  have eq: "findFile E name None =
     (if ?d = abs_path ?bb then None else findFile E name (Some (abs_path ?bb)))"
    using nf by (subst findFile.simps) (simp add: Let_def f p)
  have c: "clean ?bb" "dotfree ?bb"
    using dir_parts_clean [of E ?d] dir_parts_dotfree [of E ?d]
    by (simp_all add: clean_butlast dotfree_butlast)
  have "\<forall>j. \<not> shjs_test_e E (abs_path (take (length ?bb - 2 * j) ?bb @ [name]))"
  proof
    fix j
    have "take (length ?bb - 2 * j) ?bb = take (length ?bb - 2 * j) ?cs"
      by (rule take_butlast2) simp
    moreover have "length ?bb - 2 * j = length ?cs - 2 * Suc j" by simp
    ultimately show "\<not> shjs_test_e E (abs_path (take (length ?bb - 2 * j) ?bb @ [name]))"
      using assms(5) by (auto dest: spec [of _ "Suc j"])
  qed
  then have "findFile E name (Some (abs_path ?bb)) = None"
    using findFile_absent_abs [OF assms(1-4) c] by blast
  with eq show ?thesis by simp
qed

lemmas path_eval = path_resolve_def normalizeArray_def path_parts_def path_join_def path_normalize_def

text \<open>
  C1.  The claim is that the search checks every ancestor of the starting directory.
  findFile resolves \<open>../../\<close>, so it goes from a directory to its grandparent and
  checks every other level only (\<open>findFile_every_other_level\<close>): started in
  \<open>/home/u/proj\<close> it looks into \<open>/home/u/proj\<close>, \<open>/home\<close> and \<open>/\<close>, and returns
  \<open>null\<close> although \<open>/home/u/.jshintrc\<close> exists.
\<close>

theorem findFile_skips_parent:
  "process_cwd nested_env = ''/home/u/proj''
   \<and> shjs_test_e nested_env ''/home/u/.jshintrc''
   \<and> findFile nested_env ''.jshintrc'' None = None
   \<and> findConfig nested_env = None"
proof -
  let ?E = nested_env
  have c: "process_cwd ?E = ''/home/u/proj''" by (simp add: nested_env_def process_cwd_def)
  have e: "shjs_test_e ?E = (\<lambda>p. p \<in> {''/home/u/.jshintrc'', ''/home/u/proj/main.js''})"
    by (simp add: nested_env_def)
  have h: "env_HOME ?E = ''/root''" by (simp add: nested_env_def)
  have f1: "path_normalize (path_join [''/home/u/proj'', ''.jshintrc'']) = ''/home/u/proj/.jshintrc''"
    by (simp add: path_eval)
  have p1: "path_resolve ?E [''/home/u/proj'', ''../../''] = ''/home''"
    by (simp add: path_eval c)
  have f2: "path_normalize (path_join [''/home'', ''.jshintrc'']) = ''/home/.jshintrc''"
    by (simp add: path_eval)
  have p2: "path_resolve ?E [''/home'', ''../../''] = ''/''"
    by (simp add: path_eval c)
  have f3: "path_normalize (path_join [''/'', ''.jshintrc'']) = ''/.jshintrc''"
    by (simp add: path_eval)
  have p3: "path_resolve ?E [''/'', ''../../''] = ''/''"
    by (simp add: path_eval c)
  have fh: "path_normalize (path_join [''/root'', ''.jshintrc'']) = ''/root/.jshintrc''"
    by (simp add: path_eval)
  have s3: "findFile ?E ''.jshintrc'' (Some ''/'') = None"
    by (subst findFile.simps) (simp add: f3 p3 e)
  have s2: "findFile ?E ''.jshintrc'' (Some ''/home'') = None"
    by (subst findFile.simps) (simp add: f2 p2 e s3)
  have s1: "findFile ?E ''.jshintrc'' None = None"
    by (subst findFile.simps) (simp add: c f1 p1 e s2)
  show ?thesis
    using c s1 by (simp add: e findConfig_def h fh)
qed

text \<open>
  C6.  When no \<open>.jshintrc\<close> exists at any level above the working directory (level
  \<open>k\<close> being the directory of the first \<open>k\<close> components of the working directory)
  nor in the home directory, the upward search returns \<open>null\<close> and so does
  findConfig.  findFile is a total function: its recursion was shown to terminate for
  every environment, name and starting directory.
\<close>

theorem findConfig_none:
  assumes "\<forall>k. \<not> shjs_test_e E (abs_path (take k (dir_parts E (process_cwd E)) @ [''.jshintrc'']))"
    and "\<not> shjs_test_e E (path_normalize (path_join [env_HOME E, ''.jshintrc'']))"
  shows "findFile E ''.jshintrc'' None = None \<and> findConfig E = None"
proof -
  have "findFile E ''.jshintrc'' None = None"
    using assms(1) by (intro findFile_every_other_level) auto
  then show ?thesis using assms(2) by (simp add: findConfig_def)
qed

text \<open>An instance: five levels, two files, no \<open>.jshintrc\<close>.\<close>

theorem findConfig_none_witness:
  "findFile bare_env ''.jshintrc'' None = None \<and> findConfig bare_env = None"
proof -
  let ?E = bare_env
  have c: "process_cwd ?E = ''/srv/app/src/lib/util''" by (simp add: bare_env_def process_cwd_def)
  have dp: "dir_parts ?E (process_cwd ?E) = [''srv'', ''app'', ''src'', ''lib'', ''util'']"
    unfolding c by (simp add: dir_parts_def normalizeArray_def path_parts_def)
  have e: "shjs_test_e ?E = (\<lambda>p. p \<in> {''/srv/app/package.json'', ''/srv/app/src/lib/util/a.js''})"
    by (simp add: bare_env_def)
  have h: "env_HOME ?E = ''/root''" by (simp add: bare_env_def)
  have fh: "path_normalize (path_join [''/root'', ''.jshintrc'']) = ''/root/.jshintrc''"
    by (simp add: path_eval)
  have levels: "\<forall>k. \<not> shjs_test_e ?E (abs_path (take k (dir_parts ?E (process_cwd ?E)) @ [''.jshintrc'']))"
  proof
    fix k :: nat
    consider "k = 0" | "k = 1" | "k = 2" | "k = 3" | "k = 4" | "k \<ge> 5" by arith
    then show "\<not> shjs_test_e ?E (abs_path (take k (dir_parts ?E (process_cwd ?E)) @ [''.jshintrc'']))"
      unfolding dp e by cases (simp_all add: abs_path_def numeral_nat)
  qed
  have home: "\<not> shjs_test_e ?E (path_normalize (path_join [env_HOME ?E, ''.jshintrc'']))"
    by (simp add: h fh e)
  show ?thesis using findConfig_none [OF levels home] .
qed

section \<open>Loading the configuration\<close>

text \<open>
  C4.  loadConfig returns the empty configuration when the path is \<open>null\<close>, empty
  or names no existing file, and it fails with the parser's SyntaxError exactly when
  the file exists, is read, and its content with the comments removed is rejected by
  \<open>JSON.parse\<close> (the content being the empty text when \<open>shjs.cat\<close> returns
  \<open>null\<close>).
\<close>

theorem loadConfig_outcomes:
  "((fp = None \<or> fp = Some [] \<or> (\<exists>p. fp = Some p \<and> \<not> shjs_test_e E p)) \<longrightarrow>
      loadConfig E fp = Inr (JObj []))
   \<and> (loadConfig E fp = Inl SyntaxError \<longleftrightarrow>
        (\<exists>p content. fp = Some p \<and> p \<noteq> [] \<and> shjs_test_e E p \<and> shjs_cat E p = Content content
           \<and> JSON_parse E (removeComments (Some content)) = None)
        \<or> (\<exists>p. fp = Some p \<and> p \<noteq> [] \<and> shjs_test_e E p \<and> shjs_cat E p = NoContent
           \<and> JSON_parse E (removeComments None) = None))"
  by (auto simp: loadConfig_def split: option.splits cat_result.splits)

text \<open>
  In \<open>config_env\<close>: no path, a missing file, a file that is no JSON, and a
  configuration with comments.
\<close>

theorem loadConfig_outcomes_witness:
  "loadConfig config_env None = Inr (JObj [])
   \<and> loadConfig config_env (Some ''/nowhere/.jshintrc'') = Inr (JObj [])
   \<and> loadConfig config_env (Some ''/p/bad.json'') = Inl SyntaxError
   \<and> loadConfig config_env (Some ''/p/.jshintrc'') = Inr (JObj [(''undef'', JBool True)])"
  using loadConfig_outcomes [of None config_env]
    loadConfig_outcomes [of "Some ''/nowhere/.jshintrc''" config_env]
    loadConfig_outcomes [of "Some ''/p/bad.json''" config_env]
  by (simp add: config_env_def loadConfig_def removeComments_def)
section \<open>Ignoring\<close>

lemma array_some_true:
  "array_some f xs = Inr True \<longleftrightarrow>
     (\<exists>before x after. xs = before @ x # after \<and> f x = Inr True \<and> (\<forall>q \<in> set before. f q = Inr False))"
proof (induction xs)
  case Nil
  show ?case by simp
next
  case (Cons y ys)
  show ?case
  proof (cases "f y")
    case (Inl e)
    then have "\<not> (\<exists>before x after. y # ys = before @ x # after \<and> f x = Inr True \<and> (\<forall>q \<in> set before. f q = Inr False))"
      by (auto simp: Cons_eq_append_conv)
    with Inl show ?thesis by simp
  next
    case (Inr b)
    show ?thesis
    proof (cases b)
      case True
      with Inr have "y # ys = [] @ y # ys \<and> f y = Inr True \<and> (\<forall>q \<in> set []. f q = Inr False)" by simp
      then have "\<exists>before x after. y # ys = before @ x # after \<and> f x = Inr True \<and> (\<forall>q \<in> set before. f q = Inr False)"
        by blast
      with Inr True show ?thesis by simp
    next
      case False
      have "(\<exists>before x after. y # ys = before @ x # after \<and> f x = Inr True \<and> (\<forall>q \<in> set before. f q = Inr False))
          \<longleftrightarrow> (\<exists>before x after. ys = before @ x # after \<and> f x = Inr True \<and> (\<forall>q \<in> set before. f q = Inr False))"
        (is "?L \<longleftrightarrow> ?R")
      proof
        assume ?L
        then obtain before x after where h: "y # ys = before @ x # after" "f x = Inr True" "\<forall>q \<in> set before. f q = Inr False"
          by blast
        from h(1,2) Inr False obtain b' where "before = y # b'" "ys = b' @ x # after"
          by (cases before) auto
        with h show ?R by auto
      next
        assume ?R
        then obtain before x after where h: "ys = before @ x # after" "f x = Inr True" "\<forall>q \<in> set before. f q = Inr False"
          by blast
        then have "y # ys = (y # before) @ x # after \<and> f x = Inr True \<and> (\<forall>q \<in> set (y # before). f q = Inr False)"
          using Inr False by simp
        then show ?L by blast
      qed
      with Inr False Cons.IH show ?thesis by simp
    qed
  qed
qed

lemma array_some_total:
  "\<forall>x \<in> set xs. \<exists>b. f x = Inr b \<Longrightarrow> array_some f xs = Inr (\<exists>x \<in> set xs. f x = Inr True)"
proof (induction xs)
  case Nil
  show ?case by simp
next
  case (Cons y ys)
  then obtain b where b: "f y = Inr b" by auto
  with Cons show ?case by (cases b) auto
qed

lemma name_only_iff: "name_only ip \<longleftrightarrow> CHR ''/'' \<notin> set (butlast ip)"
proof (induction ip)
  case Nil
  show ?case by (simp add: name_only_def)
next
  case (Cons c cs)
  then show ?case by (cases "c = CHR ''/''") (auto simp: name_only_def Let_def)
qed

lemma ignores_pattern_literal:
  assumes "shjs_test_d E fp \<and> name_only ip \<and> \<not> minimatch E fp ip \<and> path_resolve E [fp] \<noteq> ip
     \<longrightarrow> RegExp E (''^'' @ ip @ ''.*'') = Some (prefix ip)"
  shows "ignores_pattern E fp ip =
     Inr (minimatch E fp ip \<or> path_resolve E [fp] = ip \<or> (shjs_test_d E fp \<and> name_only ip \<and> prefix ip fp))"
  using assms by (auto simp: ignores_pattern_def)

text \<open>
  C2 (amended).  Clause (c) builds a regular expression from the pattern.  When, for
  every pattern that comes to clause (c), that expression reads the pattern as plain
  text (it matches the subjects that start with the pattern, as JavaScript does for a
  pattern without a metacharacter), isIgnored returns whether some pattern matches the
  path as a glob, or is the absolute form of the path, or the path is a directory, the
  pattern holds no \<open>/\<close> but possibly a last one, and the path as it was given
  starts with the pattern.
\<close>

theorem isIgnored_iff:
  assumes "\<forall>ip \<in> set patterns.
      shjs_test_d E fp \<and> name_only ip \<and> \<not> minimatch E fp ip \<and> path_resolve E [fp] \<noteq> ip
      \<longrightarrow> RegExp E (''^'' @ ip @ ''.*'') = Some (prefix ip)"
  shows "isIgnored E fp patterns =
      Inr (\<exists>ip \<in> set patterns.
             minimatch E fp ip
             \<or> path_resolve E [fp] = ip
             \<or> (shjs_test_d E fp \<and> name_only ip \<and> prefix ip fp))
    \<and> (\<forall>ip. name_only ip \<longleftrightarrow> CHR ''/'' \<notin> set (butlast ip))"
proof
  let ?hit = "\<lambda>ip. minimatch E fp ip \<or> path_resolve E [fp] = ip
      \<or> (shjs_test_d E fp \<and> name_only ip \<and> prefix ip fp)"
  have each: "\<forall>ip \<in> set patterns. ignores_pattern E fp ip = Inr (?hit ip)"
    using assms ignores_pattern_literal [of E fp] by blast
  then have "\<forall>ip \<in> set patterns. \<exists>b. ignores_pattern E fp ip = Inr b" by blast
  then have "isIgnored E fp patterns = Inr (\<exists>ip \<in> set patterns. ignores_pattern E fp ip = Inr True)"
    unfolding isIgnored_def by (rule array_some_total)
  moreover have "(\<exists>ip \<in> set patterns. ignores_pattern E fp ip = Inr True) = (\<exists>ip \<in> set patterns. ?hit ip)"
    using each by auto
  ultimately show "isIgnored E fp patterns = Inr (\<exists>ip \<in> set patterns. ?hit ip)" by simp
  show "\<forall>ip. name_only ip \<longleftrightarrow> CHR ''/'' \<notin> set (butlast ip)"
    using name_only_iff by blast
qed

lemma lib_fields:
  "minimatch lib_env = (\<lambda>f p. f = p)"
  "shjs_test_d lib_env = (\<lambda>p. p \<in> {''lib'', ''lib/sub''})"
  "RegExp lib_env = (\<lambda>s. if s = ''^lib.*'' then Some (prefix ''lib'')
                   else if s = ''^vendor/.*'' then Some (prefix ''vendor/'') else None)"
  "path_resolve lib_env [''lib/sub''] = ''/home/u/proj/lib/sub''"
  "path_resolve lib_env [''lib''] = ''/home/u/proj/lib''"
  "path_resolve lib_env [''main.js''] = ''/home/u/proj/main.js''"
  by (simp_all add: path_eval lib_env_def process_cwd_def)

text \<open>
  In \<open>lib_env\<close> the directory \<open>lib/sub\<close> is ignored by the pattern \<open>lib\<close>,
  which it starts with, and not by \<open>vendor/\<close>; the file \<open>main.js\<close> is ignored
  by neither, nor by a glob that does not match it.
\<close>

theorem isIgnored_iff_witness:
  "isIgnored lib_env ''lib/sub'' [''vendor/'', ''lib''] = Inr True
   \<and> isIgnored lib_env ''lib/sub'' [''vendor/''] = Inr False
   \<and> isIgnored lib_env ''main.js'' [''*.min.js'', ''lib''] = Inr False
   \<and> name_only ''lib'' \<and> name_only ''vendor/'' \<and> \<not> name_only ''lib/sub''"
proof -
  have a: "\<forall>ip \<in> set [''vendor/'', ''lib''].
      shjs_test_d lib_env ''lib/sub'' \<and> name_only ip \<and> \<not> minimatch lib_env ''lib/sub'' ip
        \<and> path_resolve lib_env [''lib/sub''] \<noteq> ip
      \<longrightarrow> RegExp lib_env (''^'' @ ip @ ''.*'') = Some (prefix ip)"
    by (simp add: lib_fields)
  have b: "\<forall>ip \<in> set [''vendor/''].
      shjs_test_d lib_env ''lib/sub'' \<and> name_only ip \<and> \<not> minimatch lib_env ''lib/sub'' ip
        \<and> path_resolve lib_env [''lib/sub''] \<noteq> ip
      \<longrightarrow> RegExp lib_env (''^'' @ ip @ ''.*'') = Some (prefix ip)"
    by (simp add: lib_fields)
  have c: "\<forall>ip \<in> set [''*.min.js'', ''lib''].
      shjs_test_d lib_env ''main.js'' \<and> name_only ip \<and> \<not> minimatch lib_env ''main.js'' ip
        \<and> path_resolve lib_env [''main.js''] \<noteq> ip
      \<longrightarrow> RegExp lib_env (''^'' @ ip @ ''.*'') = Some (prefix ip)"
    by (simp add: lib_fields)
  show ?thesis
    using isIgnored_iff [OF a] isIgnored_iff [OF b] isIgnored_iff [OF c]
    by (simp add: lib_fields name_only_def)
qed

text \<open>
  What the theorem leaves aside: a pattern with a metacharacter that comes to clause
  (c) is handed to \<open>new RegExp\<close> as it is.  For the directory \<open>lib\<close> and the
  patterns \<open>src(\<close> and \<open>lib\<close> the constructor throws while the first pattern is
  tried, although the second pattern is the path.
\<close>

lemma isIgnored_unescaped_pattern:
  "isIgnored lib_env ''lib'' [''src('', ''lib''] = Inl SyntaxError"
  by (simp add: isIgnored_def ignores_pattern_def lib_fields name_only_def)

text \<open>
  C2 as stated fails: the directory \<open>lib/sub\<close> is ignored by the pattern
  \<open>lib\<close>, which is no glob match of \<open>lib/sub\<close> and is not its absolute form
  \<open>/home/u/proj/lib/sub\<close>, and that absolute form does not start with \<open>lib\<close>.
\<close>

theorem isIgnored_not_absolute_prefix:
  "\<not> (isIgnored lib_env ''lib/sub'' [''lib''] = Inr True \<longleftrightarrow> isIgnored_spec lib_env ''lib/sub'' [''lib''])"
proof -
  have "isIgnored lib_env ''lib/sub'' [''lib''] = Inr True"
    by (simp add: isIgnored_def ignores_pattern_def lib_fields name_only_def)
  moreover have "\<not> isIgnored_spec lib_env ''lib/sub'' [''lib'']"
    by (simp add: isIgnored_spec_def lib_fields)
  ultimately show ?thesis by simp
qed

section \<open>Collecting\<close>

text \<open>
  C5.  When isIgnored returns true for a path, collect returns at once with the state
  of the walk as it was: nothing is appended to \<open>files\<close> and no directory is listed.
  One unit of fuel is enough, so no recursive call is made, whatever lies below the
  path.
\<close>

theorem collect_ignored:
  "isIgnored E p patterns = Inr True \<Longrightarrow> collect (Suc n) E p w (Some patterns) ext = Some (Inr w)"
  by simp

lemma tree_fields:
  "minimatch tree_env = (\<lambda>f p. f = p)"
  "shjs_test_d tree_env = (\<lambda>p. p \<in> {''/a'', ''/a/sub''})"
  "shjs_ls tree_env = (\<lambda>p. if p = ''/a'' then [''b.js'', ''sub'']
                   else if p = ''/a/sub'' then [''c.js'', ''locked.js'', ''notes.txt''] else [])"
  "process_cwd tree_env = ''/''"
  by (simp_all add: tree_env_def process_cwd_def)

lemma tree_joins:
  "path_join [''/a'', ''b.js''] = ''/a/b.js''"
  "path_join [''/a'', ''sub''] = ''/a/sub''"
  "path_join [''/a/sub'', ''c.js''] = ''/a/sub/c.js''"
  "path_join [''/a/sub'', ''locked.js''] = ''/a/sub/locked.js''"
  "path_join [''/a/sub'', ''notes.txt''] = ''/a/sub/notes.txt''"
  by (simp_all add: path_eval)

text \<open>
  In \<open>tree_env\<close>: with \<open>/a\<close> ignored nothing is collected; with \<open>/a/sub\<close>
  ignored only \<open>/a/b.js\<close> is; with no ignore list the walk lists both directories.
\<close>

theorem collect_ignored_witness:
  "isIgnored tree_env ''/a'' [''/a''] = Inr True
   \<and> collect (Suc 0) tree_env ''/a'' \<lparr>files = [], listed = []\<rparr> (Some [''/a'']) (suffix ''.js'')
       = Some (Inr \<lparr>files = [], listed = []\<rparr>)
   \<and> collect (Suc (Suc (Suc 0))) tree_env ''/a'' \<lparr>files = [], listed = []\<rparr> (Some [''/a/sub'']) (suffix ''.js'')
       = Some (Inr \<lparr>files = [''/a/b.js''], listed = [''/a'']\<rparr>)
   \<and> collect (Suc (Suc (Suc 0))) tree_env ''/a'' \<lparr>files = [], listed = []\<rparr> None (suffix ''.js'')
       = Some (Inr \<lparr>files = [''/a/b.js'', ''/a/sub/c.js'', ''/a/sub/locked.js''], listed = [''/a'', ''/a/sub'']\<rparr>)"
proof -
  have ig: "isIgnored tree_env ''/a'' [''/a''] = Inr True"
    by (simp add: isIgnored_def ignores_pattern_def tree_fields)
  have r: "path_resolve tree_env [''/a/sub''] = ''/a/sub''" "path_resolve tree_env [''/a''] = ''/a''"
      "path_resolve tree_env [''/a/b.js''] = ''/a/b.js''"
    by (simp_all add: path_eval tree_fields)
  have ig2: "isIgnored tree_env ''/a/sub'' [''/a/sub''] = Inr True"
      "isIgnored tree_env ''/a'' [''/a/sub''] = Inr False"
      "isIgnored tree_env ''/a/b.js'' [''/a/sub''] = Inr False"
    by (simp_all add: isIgnored_def ignores_pattern_def tree_fields r name_only_def)
  show ?thesis
    using collect_ignored [OF ig, of 0 "\<lparr>files = [], listed = []\<rparr>" "suffix ''.js''"]
    by (simp add: ig ig2 tree_fields tree_joins suffix_to_prefix)
qed

section \<open>Linting one file\<close>

lemma json_clone_exact: "json_exact v \<Longrightarrow> json_clone v = v"
  by (induction v) (auto intro!: map_idI split: jnumber.splits)

lemma json_clone_object:
  "json_clone (JObj kvs) = JObj (map (\<lambda>(k, v). (k, json_clone v)) kvs)"
  by simp

lemma lint_object:
  assumes "heap w a = Some (JObj kvs)" and "a < fresh w" and "shjs_cat E file = Content content"
  shows "\<exists>w'. lint E JSHINT file (Some a) w = (None, w')
      \<and> engine_calls w' = engine_calls w @
          [(strip_bom content,
            (case get_property (json_clone (JObj kvs)) ''globals'' of
               None \<Rightarrow> json_clone (JObj kvs)
             | Some g \<Rightarrow> if truthy g then delete_property (json_clone (JObj kvs)) ''globals''
                         else json_clone (JObj kvs)),
            (case get_property (json_clone (JObj kvs)) ''globals'' of
               None \<Rightarrow> None
             | Some g \<Rightarrow> if truthy g then Some g else None))]
      \<and> (\<forall>b < fresh w. heap w' b = heap w b)
      \<and> fresh w \<le> fresh w'"
  using assms
  by (auto simp: lint_def or_empty_def json_copy_def alloc_def Let_def
      split: option.splits prod.splits)

lemma lint_no_content:
  assumes "shjs_cat E file = NoContent"
  shows "\<exists>w'. lint E JSHINT file cfg w = (Some TypeError, w')
      \<and> cli_errors w' = cli_errors w \<and> engine_calls w' = engine_calls w
      \<and> results w' = results w \<and> data w' = data w \<and> reported w' = reported w"
  using assms
  by (auto simp: lint_def or_empty_def json_copy_def alloc_def Let_def
      split: option.splits prod.splits)

lemma tree_cat:
  "shjs_cat tree_env ''/a/b.js'' = Content ''var b;''"
  "shjs_cat tree_env ''/a/sub/c.js'' = Content ''c = 1''"
  "shjs_cat tree_env ''/a/sub/locked.js'' = CatExits 1"
  "shjs_cat tree_env ''/a/missing.js'' = NoContent"
  by (simp_all add: tree_env_def)

text \<open>
  C3 (amended).  Let address \<open>a\<close> hold a configuration object and let two files be
  readable.  lint works on the copy that \<open>JSON.parse(JSON.stringify(config))\<close>
  makes, which has the content of the configuration when no number in it is an
  infinity, \<open>NaN\<close> or the negative zero.  Linting one file and then the other with
  the configuration at \<open>a\<close> calls the engine twice with the same configuration and
  the same globals argument: when the copy's \<open>globals\<close> value is truthy, the
  configuration is the copy without the key \<open>globals\<close> and the argument is that
  value; when the copy has no \<open>globals\<close> or a falsy one, the configuration is the
  whole copy and there is no globals argument.  The object at \<open>a\<close>, and every
  object that existed before, is unchanged after each call.
\<close>

theorem lint_globals_isolated:
  assumes "heap w a = Some (JObj kvs)" and "a < fresh w"
    and "shjs_cat E file1 = Content content1" and "shjs_cat E file2 = Content content2"
  shows "\<exists>w1 w2 copy seen globals.
      lint E JSHINT file1 (Some a) w = (None, w1)
      \<and> lint E JSHINT file2 (Some a) w1 = (None, w2)
      \<and> copy = json_clone (JObj kvs)
      \<and> (json_exact (JObj kvs) \<longrightarrow> copy = JObj kvs)
      \<and> globals = (case get_property copy ''globals'' of
                     None \<Rightarrow> None
                   | Some g \<Rightarrow> if truthy g then Some g else None)
      \<and> seen = (if globals = None then copy else delete_property copy ''globals'')
      \<and> (globals \<noteq> None \<longrightarrow> get_property seen ''globals'' = None)
      \<and> engine_calls w2 = engine_calls w @ [(strip_bom content1, seen, globals), (strip_bom content2, seen, globals)]
      \<and> heap w1 a = Some (JObj kvs) \<and> heap w2 a = Some (JObj kvs)
      \<and> (\<forall>b < fresh w. heap w2 b = heap w b)"
proof -
  let ?copy = "json_clone (JObj kvs)"
  let ?globals = "case get_property ?copy ''globals'' of None \<Rightarrow> None | Some g \<Rightarrow> if truthy g then Some g else None"
  let ?seen = "if ?globals = None then ?copy else delete_property ?copy ''globals''"
  have seen: "(case get_property ?copy ''globals'' of
               None \<Rightarrow> ?copy
             | Some g \<Rightarrow> if truthy g then delete_property ?copy ''globals'' else ?copy) = ?seen"
    by (simp split: option.splits)
  obtain w1 where w1: "lint E JSHINT file1 (Some a) w = (None, w1)"
      "engine_calls w1 = engine_calls w @ [(strip_bom content1, ?seen, ?globals)]"
      "\<forall>b < fresh w. heap w1 b = heap w b" "fresh w \<le> fresh w1"
    using lint_object [OF assms(1,2,3), of JSHINT] unfolding seen by blast
  have a1: "heap w1 a = Some (JObj kvs)" "a < fresh w1" using w1(3,4) assms(1,2) by auto
  obtain w2 where w2: "lint E JSHINT file2 (Some a) w1 = (None, w2)"
      "engine_calls w2 = engine_calls w1 @ [(strip_bom content2, ?seen, ?globals)]"
      "\<forall>b < fresh w1. heap w2 b = heap w1 b" "fresh w1 \<le> fresh w2"
    using lint_object [OF a1 assms(4), of JSHINT] unfolding seen by blast
  have gone: "?globals \<noteq> None \<longrightarrow> get_property ?seen ''globals'' = None"
    unfolding json_clone_object by (auto simp: map_of_eq_None_iff split: option.splits)
  have exact: "json_exact (JObj kvs) \<longrightarrow> ?copy = JObj kvs"
    using json_clone_exact [of "JObj kvs"] by blast
  have frame: "\<forall>b < fresh w. heap w2 b = heap w b" using w1(3,4) w2(3) by auto
  then have a2: "heap w2 a = Some (JObj kvs)" using assms(1,2) by auto
  have calls: "engine_calls w2 = engine_calls w @ [(strip_bom content1, ?seen, ?globals), (strip_bom content2, ?seen, ?globals)]"
    using w1(2) w2(2) by simp
  show ?thesis
    using w1(1) w2(1) exact gone calls a1(1) a2 frame by blast
qed

text \<open>
  The specification's example: both calls see \<open>{"undef": true}\<close> and the globals
  \<open>{"x": true}\<close>, and address 0 still holds the whole configuration.  For the
  configuration \<open>{"globals": Infinity, "undef": true}\<close> the copy holds
  \<open>"globals": null\<close>, so both calls see the whole copy and no globals.
\<close>

theorem lint_globals_isolated_witness:
  "engine_calls (snd (lint tree_env quiet_engine ''/a/sub/c.js'' (Some 0)
       (snd (lint tree_env quiet_engine ''/a/b.js'' (Some 0) spec_world))))
     = [(''var b;'', JObj [(''undef'', JBool True)], Some (JObj [(''x'', JBool True)])),
        (''c = 1'', JObj [(''undef'', JBool True)], Some (JObj [(''x'', JBool True)]))]
   \<and> heap (snd (lint tree_env quiet_engine ''/a/sub/c.js'' (Some 0)
       (snd (lint tree_env quiet_engine ''/a/b.js'' (Some 0) spec_world)))) 0
     = Some (JObj [(''globals'', JObj [(''x'', JBool True)]), (''undef'', JBool True)])
   \<and> engine_calls (snd (lint tree_env quiet_engine ''/a/sub/c.js'' (Some 0)
       (snd (lint tree_env quiet_engine ''/a/b.js'' (Some 0) huge_world))))
     = [(''var b;'', JObj [(''globals'', JNull), (''undef'', JBool True)], None),
        (''c = 1'', JObj [(''globals'', JNull), (''undef'', JBool True)], None)]
   \<and> heap (snd (lint tree_env quiet_engine ''/a/sub/c.js'' (Some 0)
       (snd (lint tree_env quiet_engine ''/a/b.js'' (Some 0) huge_world)))) 0
     = Some (JObj [(''globals'', JNum PlusInfinity), (''undef'', JBool True)])"
proof -
  have h: "heap spec_world 0 = Some (JObj [(''globals'', JObj [(''x'', JBool True)]), (''undef'', JBool True)])"
    and f: "0 < fresh spec_world" and e: "engine_calls spec_world = []"
    by (simp_all add: spec_world_def)
  have h': "heap huge_world 0 = Some (JObj [(''globals'', JNum PlusInfinity), (''undef'', JBool True)])"
    and f': "0 < fresh huge_world" and e': "engine_calls huge_world = []"
    by (simp_all add: huge_world_def)
  show ?thesis
    using lint_globals_isolated [OF h f tree_cat(1) tree_cat(2), of quiet_engine]
      lint_globals_isolated [OF h' f' tree_cat(1) tree_cat(2), of quiet_engine]
    by (auto simp: e e' strip_bom_def)
qed

text \<open>
  C3 as stated fails: the configuration \<open>{"globals": false, "undef": true}\<close>
  contains the key \<open>globals\<close>, and the engine is called with a configuration that
  still has it and with no globals argument.
\<close>

theorem lint_keeps_falsy_globals:
  "engine_calls (snd (lint tree_env quiet_engine ''/a/b.js'' (Some 0) falsy_world))
     = [(''var b;'', JObj [(''globals'', JBool False), (''undef'', JBool True)], None)]"
  by (simp add: lint_def or_empty_def json_copy_def alloc_def falsy_world_def tree_cat strip_bom_def
      quiet_engine_def Let_def)

lemma tree_regexp: "RegExp tree_env (extension_source []) = Some (\<lambda>f. suffix ''.js'' f)"
  by (simp add: extension_source_def tree_env_def)

lemma tree_walk:
  "collect_targets (Suc (Suc (Suc 0))) tree_env [''/a''] \<lparr>files = [], listed = []\<rparr> None (\<lambda>f. suffix ''.js'' f)
     = Some (Inr \<lparr>files = [''/a/b.js'', ''/a/sub/c.js'', ''/a/sub/locked.js''], listed = [''/a'', ''/a/sub'']\<rparr>)"
  by (simp add: tree_fields tree_joins suffix_to_prefix)


lemma tree_missing:
  "collect_targets (Suc 0) tree_env [''/a/missing.js''] \<lparr>files = [], listed = []\<rparr> None (\<lambda>f. suffix ''.js'' f)
     = Some (Inr \<lparr>files = [''/a/missing.js''], listed = []\<rparr>)"
  by (simp add: tree_fields suffix_to_prefix)

text \<open>
  C7 fails.  The \<open>catch\<close> block of lint, which passes \<open>Can't open\<close> and the
  file's name to \<open>cli.error\<close> and ends the process with status 1, runs only when
  \<open>shjs.cat\<close> throws.  For a file that does not exist \<open>shjs.cat\<close> returns
  \<open>null\<close>: a run on the target \<open>/a/missing.js\<close> collects the file, and lint
  leaves the run with the TypeError of \<open>buffer.replace\<close>, with no message given to
  \<open>cli.error\<close>, before the engine and the reporter are called.  For a file that
  cannot be read, shelljs ends the process itself: a run on \<open>/a\<close> lints \<open>b.js\<close>
  and \<open>c.js\<close> and ends at \<open>locked.js\<close>, and again lint has given no message to
  \<open>cli.error\<close>.
\<close>

theorem missing_file_no_message:
  "map_option (\<lambda>(r, w'). (r, cli_errors w', engine_calls w', reported w'))
     (run (Suc 0) tree_env strict_engine plain_reporter (tree_opts [''/a/missing.js'']) spec_world)
     = Some (Inl TypeError, [], [], [])
   \<and> map_option (\<lambda>(r, w'). (r, cli_errors w', map fst (engine_calls w'), reported w'))
     (run (Suc (Suc (Suc 0))) tree_env strict_engine plain_reporter (tree_opts [''/a'']) spec_world)
     = Some (Inl (Exit 1), [], [''var b;'', ''c = 1''], [])"
proof -
  have a: "map_option (\<lambda>(r, w'). (r, cli_errors w', engine_calls w', reported w'))
     (run (Suc 0) tree_env strict_engine plain_reporter (tree_opts [''/a/missing.js'']) spec_world)
     = Some (Inl TypeError, [], [], [])"
    by (simp add: run_def tree_opts_def tree_regexp[simplified] tree_missing Let_def lint_def
        or_empty_def json_copy_def alloc_def spec_world_def tree_cat del: collect_targets.simps)
  have b: "map_option (\<lambda>(r, w'). (r, cli_errors w', map fst (engine_calls w'), reported w'))
     (run (Suc (Suc (Suc 0))) tree_env strict_engine plain_reporter (tree_opts [''/a'']) spec_world)
     = Some (Inl (Exit 1), [], [''var b;'', ''c = 1''], [])"
    by (simp add: run_def tree_opts_def tree_regexp[simplified] tree_walk Let_def lint_def
        or_empty_def json_copy_def alloc_def spec_world_def tree_cat strip_bom_def strict_engine_def
        del: collect_targets.simps)
  from a b show ?thesis by (rule conjI)
qed

section \<open>The result of a run\<close>

















end
